theory Spec2Isabelle
  imports Main "HOL-Library.Word"
begin

section \<open>Data model\<close>

text \<open>
  The program is a single Express server (the unnamed source file of 267 lines) that
  keeps four module-level variables: \<open>client\<close>, \<open>qrCodeData\<close>, \<open>isClientReady\<close> and
  \<open>isInitializing\<close>, and one \<open>PQueue\<close> with \<open>concurrency: 3\<close>.

  A \<open>Client\<close> object is identified by the number of clients constructed before it.
  JavaScript errors are values. The result of \<open>qrcode.toDataURL\<close>, an external encoder,
  is kept symbolic: \<open>toDataURL qr\<close> stands for the data URL of the challenge \<open>qr\<close>.
\<close>

type_synonym handle = nat

datatype error = Error string | TypeError

datatype data_url = toDataURL string

datatype signal = Qr string | Ready | AuthFailure string | Disconnected string

text \<open>
  What the environment does in one pass through the \<open>try\<close> block of
  \<open>initializeWhatsAppClient\<close>: either \<open>await chromium.executablePath\<close> rejects before a
  client is constructed, or the client is constructed and \<open>client.initialize()\<close> runs;
  while it is awaited the listed signals are delivered to the registered handlers, and
  it finally resolves (\<open>None\<close>) or rejects (\<open>Some e\<close>).
\<close>

datatype attempt = PathThrows error | Runs "signal list" "error option"

datatype job = TextJob string string | MediaJob string string string

record media =
  mimetype :: "string option"
  data :: string
  filename :: string

datatype payload = Text string | Media media

text \<open>An in-flight job, suspended at one of the \<open>await\<close>s of its body.\<close>

datatype task =
    AwaitSend
  | AwaitFetch string string string
  | AwaitTextSent string media
  | AwaitMediaSent

datatype response =
    InitOk "data_url option"
  | InitGaveUp
  | InitError error
  | Closed
  | Status bool
  | MissingParams
  | NotReady
  | Sent
  | SendError
  | MediaSent
  | MediaSendError

fun status_code :: "response \<Rightarrow> nat" where
  "status_code (InitOk qr) = 200"
| "status_code InitGaveUp = 500"
| "status_code (InitError e) = 500"
| "status_code Closed = 200"
| "status_code (Status b) = 200"
| "status_code MissingParams = 400"
| "status_code NotReady = 503"
| "status_code Sent = 200"
| "status_code SendError = 500"
| "status_code MediaSent = 200"
| "status_code MediaSendError = 500"

text \<open>
  Calls that leave the process, in the order they are made. \<open>Enqueue\<close> and \<open>Run\<close> record
  when a job is handed to the queue and when the queue invokes it.
\<close>

datatype event =
    Construct handle
  | Register handle
  | Initialize handle
  | Delay nat
  | Destroy handle
  | Enqueue job
  | Run job
  | Fetch string
  | Send handle string payload
  | Respond response

record state =
  client :: "handle option"
  qrCodeData :: "data_url option"
  isClientReady :: bool
  isInitializing :: bool
  queued :: "job list"
  inflight :: "task list"
  allocated :: nat

definition initial :: state where
  "initial = \<lparr>client = None, qrCodeData = None, isClientReady = False,
     isInitializing = False, queued = [], inflight = [], allocated = 0\<rparr>"

section \<open>Session lifecycle\<close>

subsection \<open>Signal handlers (lines 112-130)\<close>

text \<open>
  Each client constructed gets the same four handlers, closures over the module-level
  variables, so a signal has the same effect whichever client emits it. The challenge
  handler awaits the encoder before it assigns; the signal counts as delivered when the
  assignment is made.
\<close>

definition on_qr :: "string \<Rightarrow> state \<Rightarrow> state" where
  "on_qr qr s = s\<lparr>qrCodeData := Some (toDataURL qr)\<rparr>"

definition on_ready :: "state \<Rightarrow> state" where
  "on_ready s = s\<lparr>isClientReady := True, qrCodeData := None\<rparr>"

definition on_auth_failure :: "string \<Rightarrow> state \<Rightarrow> state" where
  "on_auth_failure msg s = s"

definition on_disconnected :: "string \<Rightarrow> state \<Rightarrow> state" where
  "on_disconnected reason s = s\<lparr>isClientReady := False\<rparr>"

fun deliver :: "signal \<Rightarrow> state \<Rightarrow> state" where
  "deliver (Qr qr) s = on_qr qr s"
| "deliver Ready s = on_ready s"
| "deliver (AuthFailure msg) s = on_auth_failure msg s"
| "deliver (Disconnected reason) s = on_disconnected reason s"

definition deliver_all :: "signal list \<Rightarrow> state \<Rightarrow> state" where
  "deliver_all sigs s = foldl (\<lambda>s' sig. deliver sig s') s sigs"

subsection \<open>closeWhatsAppSession (lines 185-193)\<close>

text \<open>
  \<open>await client.destroy()\<close> has no handler around it, here or in either caller. Its
  outcome is the environment's: \<open>None\<close> when it resolves, \<open>Some e\<close> when it rejects with
  \<open>e\<close>. A rejection leaves the function at that line, so neither \<open>client = null\<close> nor the
  three resets run, and the function returns the error. The outcome is not consulted when
  \<open>client\<close> is \<open>null\<close>, since \<open>destroy\<close> is not called then.
\<close>

definition closeWhatsAppSession :: "error option \<Rightarrow> state \<Rightarrow> error option \<times> state \<times> event list" where
  "closeWhatsAppSession td s =
     (case client s of
        Some h \<Rightarrow>
          (case td of
             Some e \<Rightarrow> (Some e, s, [Destroy h])
           | None \<Rightarrow>
               (None,
                s\<lparr>client := None, isClientReady := False, isInitializing := False,
                   qrCodeData := None\<rparr>,
                [Destroy h]))
      | None \<Rightarrow>
          (None, s\<lparr>isClientReady := False, isInitializing := False, qrCodeData := None\<rparr>, []))"

subsection \<open>initializeWhatsAppClient (lines 94-142)\<close>

text \<open>The \<open>try\<close> block of one iteration: \<open>Some e\<close> when it throws \<open>e\<close>.\<close>

fun try_attempt :: "attempt \<Rightarrow> state \<Rightarrow> error option \<times> state \<times> event list" where
  "try_attempt (PathThrows e) s = (Some e, s, [])"
| "try_attempt (Runs sigs r) s =
     (let h = allocated s;
          s1 = s\<lparr>client := Some h, allocated := Suc h\<rparr>
      in (r, deliver_all sigs s1, [Construct h, Register h, Initialize h]))"

text \<open>
  The \<open>for\<close> loop from index \<open>i\<close>. \<open>Inr True\<close> and \<open>Inr False\<close> are the two \<open>return\<close>s,
  \<open>Inl e\<close> is \<open>throw error\<close>. The 5000 ms timer is awaited after every failure but the last.
\<close>

function attempts :: "nat \<Rightarrow> nat \<Rightarrow> (nat \<Rightarrow> attempt) \<Rightarrow> state \<Rightarrow> (error + bool) \<times> state \<times> event list" where
  "attempts i retries env s =
     (if i < retries then
        (case try_attempt (env i) s of
           (None, s1, evs) \<Rightarrow> (Inr True, s1, evs)
         | (Some e, s1, evs) \<Rightarrow>
             if i = retries - 1 then (Inl e, s1, evs)
             else (case attempts (Suc i) retries env s1 of
                     (r, s2, evs2) \<Rightarrow> (r, s2, evs @ Delay 5000 # evs2)))
      else (Inr False, s, []))"
  by pat_completeness auto
termination
  by (relation "measure (\<lambda>(i, retries, env, s). retries - i)") auto

declare attempts.simps [simp del]

definition initializeWhatsAppClient :: "nat \<Rightarrow> (nat \<Rightarrow> attempt) \<Rightarrow> state \<Rightarrow> (error + bool) \<times> state \<times> event list" where
  "initializeWhatsAppClient retries env s = attempts 0 retries env s"

subsection \<open>Routes /initialize, /close and /status (lines 144-183)\<close>

text \<open>
  \<open>/initialize\<close> calls \<open>initializeWhatsAppClient()\<close> with the default \<open>retries = 3\<close>. The
  handler is followed from its first line to its response with no other request
  interleaved. Its opening \<open>closeWhatsAppSession\<close> stands before the \<open>try\<close>: when the
  teardown rejects, the handler ends there, with no response and nothing assigned. The
  same holds for \<open>/close\<close>, which has no \<open>try\<close> at all.
\<close>

definition initialize_route :: "error option \<Rightarrow> (nat \<Rightarrow> attempt) \<Rightarrow> state \<Rightarrow> state \<times> event list" where
  "initialize_route td env s =
     (case (if isInitializing s \<or> isClientReady s then closeWhatsAppSession td s
            else (None, s, [])) of
        (Some e, s0, evs0) \<Rightarrow> (s0, evs0)
      | (None, s0, evs0) \<Rightarrow>
          (let s1 = s0\<lparr>isInitializing := True, isClientReady := False, qrCodeData := None\<rparr>;
               (r, s2, evs1) = initializeWhatsAppClient 3 env s1;
               resp = (case r of
                         Inr success \<Rightarrow> if success then InitOk (qrCodeData s2) else InitGaveUp
                       | Inl e \<Rightarrow> InitError e)
           in (s2\<lparr>isInitializing := False\<rparr>, evs0 @ evs1 @ [Respond resp])))"

definition close_route :: "error option \<Rightarrow> state \<Rightarrow> state \<times> event list" where
  "close_route td s =
     (case closeWhatsAppSession td s of
        (Some e, s1, evs) \<Rightarrow> (s1, evs)
      | (None, s1, evs) \<Rightarrow> (s1, evs @ [Respond Closed]))"

definition status_route :: "state \<Rightarrow> response" where
  "status_route s = Status (isClientReady s)"

section \<open>Send jobs (lines 207-210 and 230-240)\<close>

record http_response =
  headers :: "(string \<times> string) list"
  body :: "8 word list"

text \<open>What an awaited promise does: it rejects, or it resolves. The value a send
  resolves with is discarded by the source; only \<open>axios.get\<close>'s is read.\<close>

datatype result = Rejects error | Resolves http_response

datatype progress = Suspended task | Finished "error option"

text \<open>\<open>Buffer.toString('base64')\<close>: the standard alphabet, three bytes to four characters,
  padded with \<open>=\<close>.\<close>

definition b64_alphabet :: string where
  "b64_alphabet = ''ABCDEFGHIJKLMNOPQRSTUVWXYZabcdefghijklmnopqrstuvwxyz0123456789+/''"

definition b64_char :: "nat \<Rightarrow> char" where
  "b64_char n = b64_alphabet ! (n mod 64)"

fun base64 :: "8 word list \<Rightarrow> string" where
  "base64 [] = []"
| "base64 [a] =
     [b64_char (unat a div 4), b64_char (unat a mod 4 * 16), CHR ''='', CHR ''='']"
| "base64 [a, b] =
     [b64_char (unat a div 4), b64_char (unat a mod 4 * 16 + unat b div 16),
      b64_char (unat b mod 16 * 4), CHR ''='']"
| "base64 (a # b # c # rest) =
     [b64_char (unat a div 4), b64_char (unat a mod 4 * 16 + unat b div 16),
      b64_char (unat b mod 16 * 4 + unat c div 64), b64_char (unat c mod 64)] @ base64 rest"

text \<open>\<open>String.prototype.split\<close> with a one-character separator: never an empty array.\<close>

fun split :: "char \<Rightarrow> string \<Rightarrow> string list" where
  "split sep [] = [[]]"
| "split sep (c # cs) =
     (if c = sep then [] # split sep cs
      else (case split sep cs of [] \<Rightarrow> [[c]] | seg # segs \<Rightarrow> (c # seg) # segs))"

definition MessageMedia :: "string option \<Rightarrow> string \<Rightarrow> string \<Rightarrow> media" where
  "MessageMedia m d f = \<lparr>mimetype = m, data = d, filename = f\<rparr>"

text \<open>\<open>await client.sendMessage(chatId, content)\<close>, reading the variable \<open>client\<close> when the
  call is made: on \<open>null\<close> the member access throws a TypeError and the job rejects.\<close>

definition client_sendMessage :: "state \<Rightarrow> string \<Rightarrow> payload \<Rightarrow> task \<Rightarrow> progress \<times> event list" where
  "client_sendMessage s chatId content next =
     (case client s of
        None \<Rightarrow> (Finished (Some TypeError), [])
      | Some h \<Rightarrow> (Suspended next, [Send h chatId content]))"

text \<open>A job body from its first line to its first \<open>await\<close>.\<close>

fun begin_job :: "job \<Rightarrow> state \<Rightarrow> progress \<times> event list" where
  "begin_job (TextJob phone message) s =
     client_sendMessage s (phone @ ''@c.us'') (Text message) AwaitSend"
| "begin_job (MediaJob phone message fileUrl) s =
     (Suspended (AwaitFetch phone message fileUrl), [Fetch fileUrl])"

text \<open>A suspended job body from the \<open>await\<close> it waits at to the next one, or to its end.\<close>

fun resume :: "task \<Rightarrow> result \<Rightarrow> state \<Rightarrow> progress \<times> event list" where
  "resume t (Rejects e) s = (Finished (Some e), [])"
| "resume AwaitSend (Resolves v) s = (Finished None, [])"
| "resume (AwaitFetch phone message fileUrl) (Resolves response) s =
     (let media = MessageMedia (map_of (headers response) ''content-type'')
                    (base64 (body response)) (last (split CHR ''/'' fileUrl));
          chatId = phone @ ''@c.us''
      in client_sendMessage s chatId (Text message) (AwaitTextSent chatId media))"
| "resume (AwaitTextSent chatId media) (Resolves v) s =
     client_sendMessage s chatId (Media media) AwaitMediaSent"
| "resume AwaitMediaSent (Resolves v) s = (Finished None, [])"

text \<open>The response the route sends once \<open>await queue.add(...)\<close> settles.\<close>

fun reply_of_job :: "job \<Rightarrow> error option \<Rightarrow> response" where
  "reply_of_job (TextJob phone message) None = Sent"
| "reply_of_job (TextJob phone message) (Some e) = SendError"
| "reply_of_job (MediaJob phone message fileUrl) None = MediaSent"
| "reply_of_job (MediaJob phone message fileUrl) (Some e) = MediaSendError"

fun reply_of_task :: "task \<Rightarrow> error option \<Rightarrow> response" where
  "reply_of_task AwaitSend None = Sent"
| "reply_of_task AwaitSend (Some e) = SendError"
| "reply_of_task t None = MediaSent"
| "reply_of_task t (Some e) = MediaSendError"

section \<open>Dispatch queue (line 19)\<close>

definition concurrency :: nat where
  "concurrency = 3"

text \<open>
  Modelled from the spec: the queue is an instance of the \<open>p-queue\<close> package, which is
  not among the source files. Following section 3 and 4.2 of the specification it is an
  ordered sequence of pending jobs (\<open>queued\<close>) and the jobs in flight (\<open>inflight\<close>), with
  a fixed limit: a submitted job is appended to the pending sequence; whenever a slot is
  free the oldest pending job is started; a job that settles frees its slot.

  The route that awaits a job answers in the continuation of \<open>await queue.add(...)\<close>,
  which runs after the queue has freed the slot and invoked the next job. \<open>owed\<close> is
  that outstanding answer: it is written once the next job's first stretch has run, or
  at once when no job is started.
\<close>

function start_next :: "event list \<Rightarrow> state \<Rightarrow> state \<times> event list" where
  "start_next owed s =
     (if length (inflight s) < concurrency then
        (case queued s of
           [] \<Rightarrow> (s, owed)
         | j # js \<Rightarrow>
             (case begin_job j s of
                (Suspended t, evs) \<Rightarrow>
                  (s\<lparr>queued := js, inflight := inflight s @ [t]\<rparr>, Run j # evs @ owed)
              | (Finished r, evs) \<Rightarrow>
                  (case start_next [Respond (reply_of_job j r)] (s\<lparr>queued := js\<rparr>) of
                     (s', evs') \<Rightarrow> (s', Run j # evs @ owed @ evs'))))
      else (s, owed))"
  by pat_completeness auto
termination
  by (relation "measure (\<lambda>(owed, s). length (queued s))") auto

declare start_next.simps [simp del]

text \<open>Modelled from the spec: \<open>queue.add(job)\<close>.\<close>

definition queue_add :: "job \<Rightarrow> state \<Rightarrow> state \<times> event list" where
  "queue_add j s =
     (case start_next [] (s\<lparr>queued := queued s @ [j]\<rparr>) of
        (s', evs) \<Rightarrow> (s', Enqueue j # evs))"

text \<open>
  The promise that in-flight job \<open>i\<close> awaits settles with \<open>res\<close>: its body runs on. When
  the body ends the slot is freed, the next job is invoked and then the route answers
  (modelled from the spec, as above).
\<close>

definition settle :: "nat \<Rightarrow> result \<Rightarrow> state \<Rightarrow> state \<times> event list" where
  "settle i res s =
     (if i < length (inflight s) then
        (case resume (inflight s ! i) res s of
           (Suspended t, evs) \<Rightarrow> (s\<lparr>inflight := (inflight s)[i := t]\<rparr>, evs)
         | (Finished r, evs) \<Rightarrow>
             (case start_next [Respond (reply_of_task (inflight s ! i) r)]
                     (s\<lparr>inflight := take i (inflight s) @ drop (Suc i) (inflight s)\<rparr>) of
                (s', evs') \<Rightarrow> (s', evs @ evs')))
      else (s, []))"

section \<open>Routes /send-message and /send-message_media (lines 195-246)\<close>

text \<open>The query parameters the handlers destructure; \<open>None\<close> is an absent parameter.\<close>

record send_query =
  q_phone :: "string option"
  q_message :: "string option"
  q_fileUrl :: "string option"

text \<open>JavaScript truthiness of a query parameter: absent and empty are falsy.\<close>

definition truthy :: "string option \<Rightarrow> bool" where
  "truthy p = (case p of None \<Rightarrow> False | Some v \<Rightarrow> v \<noteq> [])"

definition send_message_route :: "send_query \<Rightarrow> state \<Rightarrow> state \<times> event list" where
  "send_message_route q s =
     (if \<not> truthy (q_phone q) \<or> \<not> truthy (q_message q) then (s, [Respond MissingParams])
      else if \<not> isClientReady s then (s, [Respond NotReady])
      else queue_add (TextJob (the (q_phone q)) (the (q_message q))) s)"

definition send_message_media_route :: "send_query \<Rightarrow> state \<Rightarrow> state \<times> event list" where
  "send_message_media_route q s =
     (if \<not> truthy (q_phone q) \<or> \<not> truthy (q_message q) \<or> \<not> truthy (q_fileUrl q)
      then (s, [Respond MissingParams])
      else if \<not> isClientReady s then (s, [Respond NotReady])
      else queue_add (MediaJob (the (q_phone q)) (the (q_message q)) (the (q_fileUrl q))) s)"

section \<open>The server as a transition system\<close>

text \<open>One step is one request handled to its last line, one signal delivered, or one
  awaited promise of an in-flight job settling.\<close>

datatype action =
    GetInitialize "error option" "nat \<Rightarrow> attempt"
  | GetClose "error option"
  | GetStatus
  | GetSendMessage send_query
  | GetSendMessageMedia send_query
  | Signal signal
  | Settle nat result

fun exec :: "action \<Rightarrow> state \<Rightarrow> state \<times> event list" where
  "exec (GetInitialize td env) s = initialize_route td env s"
| "exec (GetClose td) s = close_route td s"
| "exec GetStatus s = (s, [Respond (status_route s)])"
| "exec (GetSendMessage q) s = send_message_route q s"
| "exec (GetSendMessageMedia q) s = send_message_media_route q s"
| "exec (Signal sig) s = (deliver sig s, [])"
| "exec (Settle i res) s = settle i res s"

fun run :: "action list \<Rightarrow> state \<Rightarrow> state \<times> event list" where
  "run [] s = (s, [])"
| "run (a # as) s =
     (case exec a s of (s1, evs1) \<Rightarrow>
        (case run as s1 of (s2, evs2) \<Rightarrow> (s2, evs1 @ evs2)))"

section \<open>Observations on event traces\<close>

text \<open>The timing skeleton of a trace: each call of \<open>client.initialize()\<close> and each timer.\<close>

datatype tick = Attempt | Wait nat

fun schedule :: "event list \<Rightarrow> tick list" where
  "schedule [] = []"
| "schedule (Initialize h # evs) = Attempt # schedule evs"
| "schedule (Delay ms # evs) = Wait ms # schedule evs"
| "schedule (e # evs) = schedule evs"

definition startup_calls :: "event list \<Rightarrow> nat" where
  "startup_calls evs = count_list (schedule evs) Attempt"

fun startup_event :: "event \<Rightarrow> bool" where
  "startup_event (Construct h) = True"
| "startup_event (Register h) = True"
| "startup_event (Initialize h) = True"
| "startup_event (Delay ms) = True"
| "startup_event e = False"

text \<open>The startup routine was called and rejected, or was called and resolved.\<close>

fun startup_fails :: "attempt \<Rightarrow> bool" where
  "startup_fails (Runs sigs (Some e)) = True"
| "startup_fails a = False"

fun startup_succeeds :: "attempt \<Rightarrow> bool" where
  "startup_succeeds (Runs sigs None) = True"
| "startup_succeeds a = False"

fun attempt_error :: "attempt \<Rightarrow> error option" where
  "attempt_error (PathThrows e) = Some e"
| "attempt_error (Runs sigs r) = r"

fun signals_of :: "attempt \<Rightarrow> signal list" where
  "signals_of (PathThrows e) = []"
| "signals_of (Runs sigs r) = sigs"

text \<open>\<open>precedes a b xs\<close>: no \<open>b\<close> occurs in \<open>xs\<close> before the first \<open>a\<close>.\<close>

fun precedes :: "'a \<Rightarrow> 'a \<Rightarrow> 'a list \<Rightarrow> bool" where
  "precedes a b [] = True"
| "precedes a b (x # xs) = (if x = a then True else x \<noteq> b \<and> precedes a b xs)"

text \<open>Two startup routines: one that fails twice and then succeeds after issuing a
  challenge, one that always fails.\<close>

definition flaky_startup :: "nat \<Rightarrow> attempt" where
  "flaky_startup i =
     (if i < 2 then Runs [] (Some (Error ''launch failed'')) else Runs [Qr ''2@abc''] None)"

definition dead_startup :: "nat \<Rightarrow> attempt" where
  "dead_startup i = Runs [] (Some (Error ''launch failed''))"

fun teardowns :: "event list \<Rightarrow> handle list" where
  "teardowns [] = []"
| "teardowns (Destroy h # evs) = h # teardowns evs"
| "teardowns (e # evs) = teardowns evs"

fun responses :: "event list \<Rightarrow> response list" where
  "responses [] = []"
| "responses (Respond r # evs) = r # responses evs"
| "responses (e # evs) = responses evs"

text \<open>A startup routine that issues a challenge and resolves before it is scanned, one
  that resolves once the session is ready, and the states they lead to from a fresh
  process.\<close>

definition scan_startup :: "nat \<Rightarrow> attempt" where
  "scan_startup i = Runs [Qr ''2@abc''] None"

definition ready_startup :: "nat \<Rightarrow> attempt" where
  "ready_startup i = Runs [Qr ''2@abc'', Ready] None"

definition awaiting_scan :: state where
  "awaiting_scan = fst (initialize_route None scan_startup initial)"

definition ready_state :: state where
  "ready_state = fst (initialize_route None ready_startup initial)"

definition exhausted_state :: state where
  "exhausted_state = fst (initialize_route None dead_startup initial)"

text \<open>The state Absent: no handle, not ready, not initializing, no challenge (the queue
  and the count of clients constructed are as in \<open>s\<close>).\<close>

definition absent :: "state \<Rightarrow> state" where
  "absent s =
     s\<lparr>client := None, isClientReady := False, isInitializing := False, qrCodeData := None\<rparr>"

text \<open>The teardown that a Close in state \<open>s\<close> makes completes: there is no handle to tear
  down, or \<open>destroy\<close> resolves.\<close>

definition teardown_completes :: "error option \<Rightarrow> state \<Rightarrow> bool" where
  "teardown_completes td s = (client s = None \<or> td = None)"

text \<open>What the opening Close of \<open>/initialize\<close> leaves and emits when it returns.\<close>

definition opening_close :: "state \<Rightarrow> state \<times> event list" where
  "opening_close s =
     (if isInitializing s \<or> isClientReady s
      then (absent s, map Destroy (case client s of None \<Rightarrow> [] | Some h \<Rightarrow> [h]))
      else (s, []))"

text \<open>The opening Close of \<open>/initialize\<close> returns: it is not called, or its teardown
  completes.\<close>

definition opening_close_returns :: "error option \<Rightarrow> state \<Rightarrow> bool" where
  "opening_close_returns td s =
     (isInitializing s \<or> isClientReady s \<longrightarrow> teardown_completes td s)"

text \<open>The jobs handed to the queue and the jobs the queue has invoked, in order.\<close>

fun enqueues :: "event list \<Rightarrow> job list" where
  "enqueues [] = []"
| "enqueues (Enqueue j # evs) = j # enqueues evs"
| "enqueues (e # evs) = enqueues evs"

fun runs :: "event list \<Rightarrow> job list" where
  "runs [] = []"
| "runs (Run j # evs) = j # runs evs"
| "runs (e # evs) = runs evs"

fun sends :: "event list \<Rightarrow> (string \<times> payload) list" where
  "sends [] = []"
| "sends (Send h chatId content # evs) = (chatId, content) # sends evs"
| "sends (e # evs) = sends evs"

text \<open>The request that submits a given job, and the jobs whose parameters pass the
  handlers' presence checks.\<close>

fun request_of :: "job \<Rightarrow> action" where
  "request_of (TextJob phone message) =
     GetSendMessage \<lparr>q_phone = Some phone, q_message = Some message, q_fileUrl = None\<rparr>"
| "request_of (MediaJob phone message fileUrl) =
     GetSendMessageMedia \<lparr>q_phone = Some phone, q_message = Some message, q_fileUrl = Some fileUrl\<rparr>"

fun presentable :: "job \<Rightarrow> bool" where
  "presentable (TextJob phone message) = (phone \<noteq> [] \<and> message \<noteq> [])"
| "presentable (MediaJob phone message fileUrl) = (phone \<noteq> [] \<and> message \<noteq> [] \<and> fileUrl \<noteq> [])"

text \<open>A job body followed alone from its first line, its awaited promises settling
  with the given results in turn, in a state that nothing else changes meanwhile.\<close>

fun drive :: "progress \<Rightarrow> result list \<Rightarrow> state \<Rightarrow> progress \<times> event list" where
  "drive (Finished r) rs s = (Finished r, [])"
| "drive (Suspended t) [] s = (Suspended t, [])"
| "drive (Suspended t) (r # rs) s =
     (case resume t r s of (p, evs) \<Rightarrow>
        (case drive p rs s of (p', evs') \<Rightarrow> (p', evs @ evs')))"

definition run_job :: "job \<Rightarrow> result list \<Rightarrow> state \<Rightarrow> progress \<times> event list" where
  "run_job j rs s =
     (case begin_job j s of (p, evs) \<Rightarrow>
        (case drive p rs s of (p', evs') \<Rightarrow> (p', evs @ evs')))"

definition png_response :: http_response where
  "png_response = \<lparr>headers = [(''content-type'', ''image/png'')], body = [0x01, 0x02]\<rparr>"

definition pic_job :: job where
  "pic_job = MediaJob ''5551234567'' ''hi'' ''http://files.example/img/pic.png''"

text \<open>The queue is within its limit, and jobs wait only while every slot is taken.\<close>

definition queue_inv :: "state \<Rightarrow> bool" where
  "queue_inv s =
     (length (inflight s) \<le> concurrency \<and>
      (queued s \<noteq> [] \<longrightarrow> length (inflight s) = concurrency))"

text \<open>Sample requests and a burst of four jobs, one more than the limit.\<close>

definition hello_query :: send_query where
  "hello_query = \<lparr>q_phone = Some ''5551234567'', q_message = Some ''hi'', q_fileUrl = None\<rparr>"

definition no_message_query :: send_query where
  "no_message_query = \<lparr>q_phone = Some ''5551234567'', q_message = None, q_fileUrl = None\<rparr>"

definition burst :: "job list" where
  "burst = [TextJob ''5551234567'' ''one'', pic_job, pic_job, TextJob ''5551234567'' ''four'']"

text \<open>Three media jobs take the three slots, a text job is admitted behind them while
  the session is ready, and then the session is lost: by a disconnected signal, or by
  \<open>/close\<close>.\<close>

definition disconnected_backlog :: state where
  "disconnected_backlog =
     fst (run (map request_of [pic_job, pic_job, pic_job, TextJob ''5551234567'' ''hi'']
               @ [Signal (Disconnected ''LOGOUT'')]) ready_state)"

definition closed_backlog :: state where
  "closed_backlog =
     fst (run (map request_of [pic_job, pic_job, pic_job, TextJob ''5551234567'' ''hi'']
               @ [GetClose None]) ready_state)"

section \<open>The retry loop\<close>

lemma schedule_append: "schedule (xs @ ys) = schedule xs @ schedule ys"
  by (induction xs rule: schedule.induct) auto

lemma attempts_success:
  "i < retries \<Longrightarrow> try_attempt (env i) s = (None, s1, evs) \<Longrightarrow>
   attempts i retries env s = (Inr True, s1, evs)"
  by (simp add: attempts.simps [of i])

lemma attempts_last_failure:
  "Suc i = retries \<Longrightarrow> try_attempt (env i) s = (Some e, s1, evs) \<Longrightarrow>
   attempts i retries env s = (Inl e, s1, evs)"
  by (auto simp add: attempts.simps [of i])

lemma attempts_retry:
  "Suc i < retries \<Longrightarrow> try_attempt (env i) s = (Some e, s1, evs) \<Longrightarrow>
   attempts (Suc i) retries env s1 = (r, s2, evs2) \<Longrightarrow>
   attempts i retries env s = (r, s2, evs @ Delay 5000 # evs2)"
  by (auto simp add: attempts.simps [of i])

lemma try_attempt_fails:
  "startup_fails a \<Longrightarrow>
   \<exists>e s1 evs. try_attempt a s = (Some e, s1, evs) \<and> attempt_error a = Some e \<and> schedule evs = [Attempt]"
  by (cases a rule: startup_fails.cases) (auto simp: Let_def)

lemma try_attempt_succeeds:
  "startup_succeeds a \<Longrightarrow>
   \<exists>s1 evs. try_attempt a s = (None, s1, evs) \<and> schedule evs = [Attempt]"
  by (cases a rule: startup_succeeds.cases) (auto simp: Let_def)

lemma attempts_eventual_success:
  "\<forall>i<k. startup_fails (env (i0 + i)) \<Longrightarrow> startup_succeeds (env (i0 + k)) \<Longrightarrow> i0 + k < retries \<Longrightarrow>
   \<exists>s' evs. attempts i0 retries env s = (Inr True, s', evs) \<and>
     schedule evs = Attempt # concat (replicate k [Wait 5000, Attempt])"
proof (induction k arbitrary: i0 s)
  case 0
  then obtain s1 evs where "try_attempt (env i0) s = (None, s1, evs)" "schedule evs = [Attempt]"
    using try_attempt_succeeds [of "env i0" s] by auto
  with 0 show ?case using attempts_success [of i0 retries env s s1 evs] by simp
next
  case (Suc k)
  from Suc.prems(1) have "startup_fails (env i0)" by (metis add.right_neutral zero_less_Suc)
  then obtain e s1 evs where t: "try_attempt (env i0) s = (Some e, s1, evs)" "schedule evs = [Attempt]"
    using try_attempt_fails [of "env i0" s] by auto
  have "\<forall>i<k. startup_fails (env (Suc i0 + i))" using Suc.prems(1) by auto
  moreover have "startup_succeeds (env (Suc i0 + k))" using Suc.prems(2) by simp
  moreover have "Suc i0 + k < retries" using Suc.prems(3) by simp
  ultimately obtain s' evs2 where r: "attempts (Suc i0) retries env s1 = (Inr True, s', evs2)"
     "schedule evs2 = Attempt # concat (replicate k [Wait 5000, Attempt])"
    using Suc.IH [of "Suc i0" s1] by blast
  have "Suc i0 < retries" using Suc.prems(3) by simp
  from attempts_retry [OF this t(1) r(1)] t(2) r(2) show ?case
    by (simp add: schedule_append)
qed

lemma attempts_exhausted:
  "\<forall>i<Suc n. startup_fails (env (i0 + i)) \<Longrightarrow> i0 + Suc n = retries \<Longrightarrow>
   \<exists>s' e evs. attempts i0 retries env s = (Inl e, s', evs) \<and> attempt_error (env (retries - 1)) = Some e \<and>
     schedule evs = Attempt # concat (replicate n [Wait 5000, Attempt])"
proof (induction n arbitrary: i0 s)
  case 0
  then have "startup_fails (env i0)" by simp
  then obtain e s1 evs where t: "try_attempt (env i0) s = (Some e, s1, evs)" "attempt_error (env i0) = Some e" "schedule evs = [Attempt]"
    using try_attempt_fails [of "env i0" s] by auto
  with 0 show ?case using attempts_last_failure [of i0 retries env s e s1 evs] by auto
next
  case (Suc n)
  from Suc.prems(1) have "startup_fails (env i0)" by (metis add.right_neutral zero_less_Suc)
  then obtain e s1 evs where t: "try_attempt (env i0) s = (Some e, s1, evs)" "schedule evs = [Attempt]"
    using try_attempt_fails [of "env i0" s] by auto
  have "\<forall>i<Suc n. startup_fails (env (Suc i0 + i))" using Suc.prems(1) by auto
  moreover have "Suc i0 + Suc n = retries" using Suc.prems(2) by simp
  ultimately obtain s' e' evs2 where r: "attempts (Suc i0) retries env s1 = (Inl e', s', evs2)"
     "attempt_error (env (retries - 1)) = Some e'"
     "schedule evs2 = Attempt # concat (replicate n [Wait 5000, Attempt])"
    using Suc.IH [of "Suc i0" s1] by blast
  have "Suc i0 < retries" using Suc.prems(2) by auto
  from attempts_retry [OF this t(1) r(1)] t(2) r(2,3) show ?case
    by (simp add: schedule_append)
qed

lemma attempts_never_false:
  "i < retries \<Longrightarrow>
   (case fst (attempts i retries env s) of Inr b \<Rightarrow> b | Inl e \<Rightarrow> attempt_error (env (retries - 1)) = Some e)"
proof (induction i retries env s rule: attempts.induct)
  case (1 i retries env s)
  obtain r s1 evs where t: "try_attempt (env i) s = (r, s1, evs)" by (cases "try_attempt (env i) s") auto
  have te: "r = attempt_error (env i)" using t by (cases "env i") (auto simp: Let_def)
  show ?case
  proof (cases r)
    case None
    with t 1 show ?thesis by (simp add: attempts.simps [of i])
  next
    case (Some e)
    show ?thesis
    proof (cases "i = retries - 1")
      case True
      with "1.prems" have "Suc i = retries" by simp
      from attempts_last_failure [OF this, of env s e s1 evs] t Some te True show ?thesis by simp
    next
      case False
      with "1.prems" have lt: "Suc i < retries" by simp
      have "case fst (attempts (Suc i) retries env s1) of Inr b \<Rightarrow> b | Inl e \<Rightarrow> attempt_error (env (retries - 1)) = Some e"
        using "1.IH" [of r "(s1, evs)" e s1 evs] "1.prems" t Some False lt by simp
      with Some t False "1.prems" show ?thesis
        by (auto simp add: attempts.simps [of i] split: prod.splits)
    qed
  qed
qed

lemma schedule_close [simp]: "schedule (snd (opening_close s)) = []"
  by (simp add: opening_close_def split: option.splits)

lemma close_when_completes:
  "teardown_completes td s \<Longrightarrow>
   closeWhatsAppSession td s =
     (None, absent s, map Destroy (case client s of None \<Rightarrow> [] | Some h \<Rightarrow> [h]))"
  by (cases s)
     (auto simp add: closeWhatsAppSession_def absent_def teardown_completes_def
        split: option.splits)

lemma close_when_rejects:
  "client s = Some h \<Longrightarrow> closeWhatsAppSession (Some e) s = (Some e, s, [Destroy h])"
  by (simp add: closeWhatsAppSession_def)

lemma count_replicate_pair: "count_list (concat (replicate k [Wait 5000, Attempt])) Attempt = k"
  by (induction k) auto

lemma initialize_route_unfold:
  "opening_close_returns td s \<Longrightarrow>
   initializeWhatsAppClient 3 env
     ((fst (opening_close s))
        \<lparr>isInitializing := True, isClientReady := False, qrCodeData := None\<rparr>) = (r, s2, evs1) \<Longrightarrow>
   initialize_route td env s =
     (s2\<lparr>isInitializing := False\<rparr>,
      snd (opening_close s) @ evs1 @
      [Respond (case r of Inr success \<Rightarrow> if success then InitOk (qrCodeData s2) else InitGaveUp
                | Inl e \<Rightarrow> InitError e)])"
  by (cases "isInitializing s \<or> isClientReady s")
     (auto simp add: initialize_route_def opening_close_def opening_close_returns_def
        close_when_completes Let_def split: prod.splits)

lemma initialize_route_rejected:
  "\<not> opening_close_returns td s \<Longrightarrow>
   \<exists>h. client s = Some h \<and> initialize_route td env s = (s, [Destroy h])"
  by (auto simp add: initialize_route_def opening_close_returns_def teardown_completes_def
        close_when_rejects)

lemma initialize_retries_success:
  assumes "k < 3" "\<forall>i<k. startup_fails (env i)" "startup_succeeds (env k)"
    and ret: "opening_close_returns td s"
  shows "(\<exists>qr. last (snd (initialize_route td env s)) = Respond (InitOk qr) \<and>
            status_code (InitOk qr) = 200) \<and>
         schedule (snd (initialize_route td env s)) = Attempt # concat (replicate k [Wait 5000, Attempt]) \<and>
         startup_calls (snd (initialize_route td env s)) = k + 1"
proof -
  let ?s1 = "(fst (opening_close s))
        \<lparr>isInitializing := True, isClientReady := False, qrCodeData := None\<rparr>"
  from attempts_eventual_success [of k env 0 3 ?s1] assms
  obtain s' evs where a: "attempts 0 3 env ?s1 = (Inr True, s', evs)"
    "schedule evs = Attempt # concat (replicate k [Wait 5000, Attempt])" by auto
  from a(1) have "initializeWhatsAppClient 3 env ?s1 = (Inr True, s', evs)"
    by (simp add: initializeWhatsAppClient_def)
  from initialize_route_unfold [OF ret this] a(2) show ?thesis
    by (simp add: schedule_append startup_calls_def count_replicate_pair)
qed

lemma initialize_retries_exhausted:
  assumes "\<forall>i<3. startup_fails (env i)" and ret: "opening_close_returns td s"
  shows "(\<exists>e. attempt_error (env 2) = Some e \<and>
            last (snd (initialize_route td env s)) = Respond (InitError e) \<and>
            status_code (InitError e) = 500) \<and>
         schedule (snd (initialize_route td env s)) = [Attempt, Wait 5000, Attempt, Wait 5000, Attempt] \<and>
         startup_calls (snd (initialize_route td env s)) = 3"
proof -
  let ?s1 = "(fst (opening_close s))
        \<lparr>isInitializing := True, isClientReady := False, qrCodeData := None\<rparr>"
  from attempts_exhausted [of 2 env 0 3 ?s1] assms
  obtain s' e evs where a: "attempts 0 3 env ?s1 = (Inl e, s', evs)" "attempt_error (env 2) = Some e"
    "schedule evs = Attempt # concat (replicate 2 [Wait 5000, Attempt])" by auto
  from a(1) have "initializeWhatsAppClient 3 env ?s1 = (Inl e, s', evs)"
    by (simp add: initializeWhatsAppClient_def)
  from initialize_route_unfold [OF ret this] a(2,3) show ?thesis
    by (simp add: schedule_append startup_calls_def numeral_2_eq_2)
qed

lemma try_attempt_calls: "count_list (schedule (snd (snd (try_attempt a s)))) Attempt \<le> 1"
  by (cases a) (auto simp: Let_def)

lemma attempts_calls_bounded:
  "count_list (schedule (snd (snd (attempts i retries env s)))) Attempt \<le> retries - i"
proof (induction i retries env s rule: attempts.induct)
  case (1 i retries env s)
  obtain r s1 evs where t: "try_attempt (env i) s = (r, s1, evs)"
    by (cases "try_attempt (env i) s") auto
  with try_attempt_calls [of "env i" s] have c: "count_list (schedule evs) Attempt \<le> 1" by simp
  show ?case
  proof (cases "i < retries \<and> r \<noteq> None \<and> i \<noteq> retries - 1")
    case True
    then obtain e where e: "r = Some e" by auto
    obtain r2 s2 evs2 where a: "attempts (Suc i) retries env s1 = (r2, s2, evs2)"
      by (cases "attempts (Suc i) retries env s1") auto
    from "1.IH" [of r "(s1, evs)" e s1 evs] t e True a
    have "count_list (schedule evs2) Attempt \<le> retries - Suc i" by simp
    moreover from True t e a have "snd (snd (attempts i retries env s)) = evs @ Delay 5000 # evs2"
      by (simp add: attempts.simps [of i])
    ultimately show ?thesis using c True by (simp add: schedule_append) linarith
  next
    case False
    with t c show ?thesis
      by (cases r) (auto simp add: attempts.simps [of i])
  qed
qed

lemma initialize_route_calls_bounded: "startup_calls (snd (initialize_route td env s)) \<le> 3"
proof (cases "opening_close_returns td s")
  case True
  let ?s1 = "(fst (opening_close s))\<lparr>isInitializing := True, isClientReady := False, qrCodeData := None\<rparr>"
  obtain r s2 evs1 where i: "initializeWhatsAppClient 3 env ?s1 = (r, s2, evs1)"
    by (cases "initializeWhatsAppClient 3 env ?s1") auto
  with attempts_calls_bounded [of 0 3 env ?s1] have "count_list (schedule evs1) Attempt \<le> 3"
    by (simp add: initializeWhatsAppClient_def)
  with initialize_route_unfold [OF True i] show ?thesis
    by (simp add: startup_calls_def schedule_append)
next
  case False
  from initialize_route_rejected [OF this, of env] show ?thesis
    by (auto simp add: startup_calls_def)
qed

text \<open>
  Claim C1. With the default of three attempts, and once the opening Close has returned,
  a startup routine that rejects on its first \<open>k < 3\<close> calls and resolves on call
  \<open>k + 1\<close> makes \<open>/initialize\<close> answer with its success body after exactly \<open>k + 1\<close> calls
  of the routine, a 5000 ms timer running between each two consecutive calls and nowhere
  else. A routine that rejects on each of its first three calls makes \<open>/initialize\<close>
  answer 500 with the error of the third call, after exactly three calls and two timers.
  Whatever the environment does, the routine is called at most three times in one
  request.
\<close>

theorem initialize_bounded_retry:
  "startup_calls (snd (initialize_route td env s)) \<le> 3 \<and>
   (opening_close_returns td s \<longrightarrow>
     (\<forall>k<3. (\<forall>i<k. startup_fails (env i)) \<and> startup_succeeds (env k) \<longrightarrow>
        (\<exists>qr. last (snd (initialize_route td env s)) = Respond (InitOk qr) \<and>
              status_code (InitOk qr) = 200) \<and>
        schedule (snd (initialize_route td env s)) =
          Attempt # concat (replicate k [Wait 5000, Attempt]) \<and>
        startup_calls (snd (initialize_route td env s)) = k + 1) \<and>
     ((\<forall>i<3. startup_fails (env i)) \<longrightarrow>
        (\<exists>e. attempt_error (env 2) = Some e \<and>
             last (snd (initialize_route td env s)) = Respond (InitError e) \<and>
             status_code (InitError e) = 500) \<and>
        schedule (snd (initialize_route td env s)) =
          [Attempt, Wait 5000, Attempt, Wait 5000, Attempt] \<and>
        startup_calls (snd (initialize_route td env s)) = 3))"
  using initialize_retries_success [of _ env td s] initialize_retries_exhausted [of env td s]
    initialize_route_calls_bounded [of td env s]
  by blast

theorem initialize_bounded_retry_witness:
  "opening_close_returns None ready_state \<and>
   startup_fails (flaky_startup 0) \<and> startup_fails (flaky_startup 1) \<and>
   startup_succeeds (flaky_startup 2) \<and>
   startup_calls (snd (initialize_route None flaky_startup ready_state)) = 3 \<and>
   schedule (snd (initialize_route None flaky_startup ready_state)) =
     [Attempt, Wait 5000, Attempt, Wait 5000, Attempt] \<and>
   opening_close_returns (Some TypeError) initial \<and>
   startup_fails (dead_startup 0) \<and> startup_fails (dead_startup 1) \<and>
   startup_fails (dead_startup 2) \<and>
   startup_calls (snd (initialize_route (Some TypeError) dead_startup initial)) = 3"
proof -
  have r: "opening_close_returns None ready_state" "opening_close_returns (Some TypeError) initial"
    by (simp_all add: opening_close_returns_def teardown_completes_def initial_def)
  have f: "\<forall>i<2. startup_fails (flaky_startup i)" by (simp add: flaky_startup_def)
  have g: "startup_succeeds (flaky_startup 2)" by (simp add: flaky_startup_def)
  have d: "\<forall>i<3. startup_fails (dead_startup i)" by (simp add: dead_startup_def)
  from initialize_bounded_retry [of None flaky_startup ready_state] r(1) f g
  have "startup_calls (snd (initialize_route None flaky_startup ready_state)) = 2 + 1 \<and>
        schedule (snd (initialize_route None flaky_startup ready_state)) =
          Attempt # concat (replicate 2 [Wait 5000, Attempt])"
    by (metis less_add_one one_plus_numeral semiring_norm(3) add.commute)
  moreover from initialize_bounded_retry [of "Some TypeError" dead_startup initial] r(2) d
  have "startup_calls (snd (initialize_route (Some TypeError) dead_startup initial)) = 3" by blast
  ultimately show ?thesis using r f g d by (simp add: numeral_2_eq_2)
qed

lemma try_attempt_events: "list_all startup_event (snd (snd (try_attempt a s)))"
  by (cases a) (auto simp: Let_def)

lemma attempts_events: "list_all startup_event (snd (snd (attempts i retries env s)))"
proof (induction i retries env s rule: attempts.induct)
  case (1 i retries env s)
  obtain r s1 evs where t: "try_attempt (env i) s = (r, s1, evs)"
    by (cases "try_attempt (env i) s") auto
  with try_attempt_events [of "env i" s] have evs: "list_all startup_event evs" by simp
  show ?case
  proof (cases "i < retries \<and> r \<noteq> None \<and> i \<noteq> retries - 1")
    case True
    then obtain e where e: "r = Some e" by auto
    with "1.IH" [of r "(s1, evs)" e s1 evs] t True
    have "list_all startup_event (snd (snd (attempts (Suc i) retries env s1)))" by simp
    with t e True evs show ?thesis
      by (auto simp add: attempts.simps [of i] split: prod.splits)
  next
    case False
    with t evs show ?thesis
      by (cases r) (auto simp add: attempts.simps [of i])
  qed
qed

lemma close_events: "list_all (\<lambda>e. \<exists>h. e = Destroy h) (snd (opening_close s))"
  by (simp add: opening_close_def split: option.splits)

text \<open>
  Claim C10. Called with its default of three attempts, \<open>initializeWhatsAppClient\<close>
  returns \<open>true\<close> or throws the error of the third attempt, whatever the environment
  does; it never returns \<open>false\<close>, so \<open>/initialize\<close> never answers with the body of
  its \<open>else\<close> branch.
\<close>

theorem retry_helper_never_false:
  "(case fst (initializeWhatsAppClient 3 env s) of
      Inr success \<Rightarrow> success
    | Inl e \<Rightarrow> attempt_error (env 2) = Some e) \<and>
   fst (initializeWhatsAppClient 3 env s) \<noteq> Inr False \<and>
   Respond InitGaveUp \<notin> set (snd (initialize_route td env s))"
proof -
  have a: "case fst (initializeWhatsAppClient 3 env s) of
      Inr success \<Rightarrow> success | Inl e \<Rightarrow> attempt_error (env 2) = Some e" for s
    using attempts_never_false [of 0 3 env s]
    by (auto simp add: initializeWhatsAppClient_def split: sum.splits)
  have b: "fst (initializeWhatsAppClient 3 env s) \<noteq> Inr False" for s
    using a [of s] by (auto split: sum.splits)
  have "Respond InitGaveUp \<notin> set (snd (initialize_route td env s))"
  proof (cases "opening_close_returns td s")
    case True
    let ?c = "opening_close s"
    let ?s1 = "(fst ?c)\<lparr>isInitializing := True, isClientReady := False, qrCodeData := None\<rparr>"
    obtain r s2 evs1 where i: "initializeWhatsAppClient 3 env ?s1 = (r, s2, evs1)"
      by (cases "initializeWhatsAppClient 3 env ?s1") auto
    from b [of ?s1] i have r: "r \<noteq> Inr False" by simp
    from attempts_events [of 0 3 env ?s1] i have "list_all startup_event evs1"
      by (simp add: initializeWhatsAppClient_def)
    then have e1: "Respond InitGaveUp \<notin> set evs1" by (auto simp: list_all_iff)
    from close_events [of s] have e0: "Respond InitGaveUp \<notin> set (snd ?c)"
      by (auto simp: list_all_iff)
    from r have "(case r of Inr success \<Rightarrow> if success then InitOk (qrCodeData s2) else InitGaveUp
                  | Inl e \<Rightarrow> InitError e) \<noteq> InitGaveUp"
      by (cases r) auto
    with initialize_route_unfold [OF True i] e0 e1 show ?thesis
      by (auto dest: sym)
  next
    case False
    from initialize_route_rejected [OF this, of env] show ?thesis by auto
  qed
  with a [of s] b [of s] show ?thesis by blast
qed

section \<open>Session state after each operation\<close>

lemmas attempts3 = attempts.simps [of 0] attempts.simps [of "Suc 0"] attempts.simps [of "Suc (Suc 0)"]

lemmas session_defs = initialize_route_def initializeWhatsAppClient_def closeWhatsAppSession_def
  deliver_all_def on_qr_def on_ready_def on_disconnected_def on_auth_failure_def Let_def

lemma deliver_fields [simp]:
  "client (deliver sig s) = client s" "allocated (deliver sig s) = allocated s"
  "isInitializing (deliver sig s) = isInitializing s"
  "queued (deliver sig s) = queued s" "inflight (deliver sig s) = inflight s"
  by (cases sig; simp add: on_qr_def on_ready_def on_auth_failure_def on_disconnected_def)+

lemma deliver_all_Nil [simp]: "deliver_all [] s = s"
  by (simp add: deliver_all_def)

lemma deliver_all_Cons [simp]: "deliver_all (sig # sigs) s = deliver_all sigs (deliver sig s)"
  by (simp add: deliver_all_def)

lemma deliver_all_fields [simp]:
  "client (deliver_all sigs s) = client s" "allocated (deliver_all sigs s) = allocated s"
  "isInitializing (deliver_all sigs s) = isInitializing s"
  "queued (deliver_all sigs s) = queued s" "inflight (deliver_all sigs s) = inflight s"
  by (induction sigs arbitrary: s; simp)+

lemma startup_events_silent:
  "list_all startup_event evs \<Longrightarrow> teardowns evs = [] \<and> responses evs = []"
  by (induction evs rule: teardowns.induct) auto

lemma try_attempt_failing:
  "startup_fails a \<Longrightarrow>
   try_attempt a s =
     (attempt_error a,
      deliver_all (signals_of a) (s\<lparr>client := Some (allocated s), allocated := Suc (allocated s)\<rparr>),
      [Construct (allocated s), Register (allocated s), Initialize (allocated s)])"
  by (cases a rule: startup_fails.cases) (auto simp: Let_def)

lemma attempts_exhausted_state:
  "\<forall>i<Suc n. startup_fails (env (i0 + i)) \<Longrightarrow> i0 + Suc n = retries \<Longrightarrow>
   attempts i0 retries env s = (r, s', evs) \<Longrightarrow>
   client s' = Some (allocated s + n) \<and> allocated s' = allocated s + Suc n \<and>
   isInitializing s' = isInitializing s \<and> queued s' = queued s \<and> inflight s' = inflight s \<and>
   ((\<forall>i<Suc n. signals_of (env (i0 + i)) = []) \<longrightarrow>
      isClientReady s' = isClientReady s \<and> qrCodeData s' = qrCodeData s)"
proof (induction n arbitrary: i0 s r s' evs)
  case 0
  then have f: "startup_fails (env i0)" by simp
  then obtain e where e: "attempt_error (env i0) = Some e"
    by (cases "env i0" rule: startup_fails.cases) auto
  from 0 have "Suc i0 = retries" by simp
  from attempts_last_failure [OF this, of env s e] try_attempt_failing [OF f, of s] e "0.prems"(3)
  show ?case by auto
next
  case (Suc n)
  from Suc.prems(1) have f: "startup_fails (env i0)" by (metis add.right_neutral zero_less_Suc)
  then obtain e where e: "attempt_error (env i0) = Some e"
    by (cases "env i0" rule: startup_fails.cases) auto
  let ?s1 = "deliver_all (signals_of (env i0))
               (s\<lparr>client := Some (allocated s), allocated := Suc (allocated s)\<rparr>)"
  let ?ev = "[Construct (allocated s), Register (allocated s), Initialize (allocated s)]"
  have t: "try_attempt (env i0) s = (Some e, ?s1, ?ev)" using try_attempt_failing [OF f, of s] e by simp
  obtain r2 s2 evs2 where a: "attempts (Suc i0) retries env ?s1 = (r2, s2, evs2)"
    by (cases "attempts (Suc i0) retries env ?s1") auto
  have lt: "Suc i0 < retries" using Suc.prems(2) by auto
  from attempts_retry [OF lt t a] Suc.prems(3) have eq: "s' = s2" by simp
  have p1: "\<forall>i<Suc n. startup_fails (env (Suc i0 + i))" using Suc.prems(1) by auto
  have p2: "Suc i0 + Suc n = retries" using Suc.prems(2) by simp
  note ih = Suc.IH [OF p1 p2 a]
  have sig: "(\<forall>i<Suc (Suc n). signals_of (env (i0 + i)) = []) \<Longrightarrow>
       signals_of (env i0) = [] \<and> (\<forall>i<Suc n. signals_of (env (Suc i0 + i)) = [])"
  proof
    assume h: "\<forall>i<Suc (Suc n). signals_of (env (i0 + i)) = []"
    then show "signals_of (env i0) = []" by (metis add.right_neutral zero_less_Suc)
    from h show "\<forall>i<Suc n. signals_of (env (Suc i0 + i)) = []" by auto
  qed
  from ih eq sig show ?case by auto
qed

lemma absent_fields [simp]:
  "client (absent s) = None"
  "isClientReady (absent s) = False"
  "isInitializing (absent s) = False"
  "qrCodeData (absent s) = None"
  "allocated (absent s) = allocated s"
  "queued (absent s) = queued s"
  "inflight (absent s) = inflight s"
  by (simp_all add: absent_def)

lemma opening_close_fields [simp]:
  "allocated (fst (opening_close s)) = allocated s"
  "queued (fst (opening_close s)) = queued s"
  "inflight (fst (opening_close s)) = inflight s"
  by (simp_all add: opening_close_def)

lemma close_trace:
  "snd (opening_close s) =
     (if isInitializing s \<or> isClientReady s
      then map Destroy (case client s of None \<Rightarrow> [] | Some h \<Rightarrow> [h]) else [])"
  by (simp add: opening_close_def)

lemma teardowns_append: "teardowns (xs @ ys) = teardowns xs @ teardowns ys"
  by (induction xs rule: teardowns.induct) auto

lemma responses_append: "responses (xs @ ys) = responses xs @ responses ys"
  by (induction xs rule: responses.induct) auto

lemma close_silent [simp]: "responses (snd (opening_close s)) = []"
  by (simp add: close_trace split: option.splits)

lemma awaiting_scan_eq:
  "awaiting_scan = \<lparr>client = Some 0, qrCodeData = Some (toDataURL ''2@abc''), isClientReady = False,
     isInitializing = False, queued = [], inflight = [], allocated = 1\<rparr>"
  by (simp add: awaiting_scan_def scan_startup_def initial_def session_defs attempts3)

lemma ready_state_eq:
  "ready_state = \<lparr>client = Some 0, qrCodeData = None, isClientReady = True,
     isInitializing = False, queued = [], inflight = [], allocated = 1\<rparr>"
  by (simp add: ready_state_def ready_startup_def initial_def session_defs attempts3)

lemma exhausted_state_eq:
  "exhausted_state = \<lparr>client = Some 2, qrCodeData = None, isClientReady = False,
     isInitializing = False, queued = [], inflight = [], allocated = 3\<rparr>"
  by (simp add: exhausted_state_def dead_startup_def initial_def session_defs attempts3)

text \<open>
  Claim C2, as amended. When the startup routine rejects on each of the three attempts
  (the opening Close having returned), \<open>/initialize\<close> answers 500 with the error of the
  third attempt and the initializing marker is false afterwards. The handle constructed
  by the third attempt stays in \<open>client\<close>: the only teardown of the whole call is that of
  the handle held before it, made by the opening \<open>closeWhatsAppSession\<close>. When no signal
  was delivered during the attempts the ready flag is false and the challenge payload is
  empty.
\<close>

theorem initialize_exhausted_outcome:
  assumes "\<forall>i<3. startup_fails (env i)" and ret: "opening_close_returns td s"
  shows "(\<exists>e. attempt_error (env 2) = Some e \<and>
            responses (snd (initialize_route td env s)) = [InitError e] \<and>
            status_code (InitError e) = 500) \<and>
         \<not> isInitializing (fst (initialize_route td env s)) \<and>
         client (fst (initialize_route td env s)) = Some (allocated s + 2) \<and>
         teardowns (snd (initialize_route td env s)) =
           (if isInitializing s \<or> isClientReady s
            then (case client s of None \<Rightarrow> [] | Some h \<Rightarrow> [h]) else []) \<and>
         ((\<forall>i<3. signals_of (env i) = []) \<longrightarrow>
            \<not> isClientReady (fst (initialize_route td env s)) \<and>
            qrCodeData (fst (initialize_route td env s)) = None)"
proof -
  let ?c = "opening_close s"
  let ?s1 = "(fst ?c)\<lparr>isInitializing := True, isClientReady := False, qrCodeData := None\<rparr>"
  have al: "allocated ?s1 = allocated s" by simp
  from attempts_exhausted [of 2 env 0 3 ?s1] assms(1)
  obtain s' e evs where a: "attempts 0 3 env ?s1 = (Inl e, s', evs)" "attempt_error (env 2) = Some e"
    by auto
  from attempts_exhausted_state [of 2 env 0 3 ?s1 "Inl e" s' evs] assms(1) a(1) al
  have st: "client s' = Some (allocated s + 2)"
    "(\<forall>i<3. signals_of (env i) = []) \<longrightarrow> \<not> isClientReady s' \<and> qrCodeData s' = None"
    by auto
  from attempts_events [of 0 3 env ?s1] a(1) have "list_all startup_event evs" by simp
  then have sil: "teardowns evs = []" "responses evs = []" using startup_events_silent by auto
  have tc: "teardowns (snd ?c) = (if isInitializing s \<or> isClientReady s
            then (case client s of None \<Rightarrow> [] | Some h \<Rightarrow> [h]) else [])"
    by (simp add: close_trace split: option.splits)
  have rc: "responses (snd ?c) = []" by simp
  from a(1) have "initializeWhatsAppClient 3 env ?s1 = (Inl e, s', evs)"
    by (simp add: initializeWhatsAppClient_def)
  from initialize_route_unfold [OF ret this]
  have r: "initialize_route td env s = (s'\<lparr>isInitializing := False\<rparr>, snd ?c @ evs @ [Respond (InitError e)])"
    by simp
  show ?thesis
    unfolding r using a(2) st sil tc rc
    by (simp add: teardowns_append responses_append del: split_paired_All)
qed

theorem initialize_exhausted_outcome_witness:
  "opening_close_returns None ready_state \<and>
   startup_fails (dead_startup 0) \<and> startup_fails (dead_startup 1) \<and>
   startup_fails (dead_startup 2) \<and>
   signals_of (dead_startup 0) = [] \<and> signals_of (dead_startup 1) = [] \<and>
   signals_of (dead_startup 2) = [] \<and>
   responses (snd (initialize_route None dead_startup ready_state)) =
     [InitError (Error ''launch failed'')] \<and>
   client (fst (initialize_route None dead_startup ready_state)) = Some 3 \<and>
   teardowns (snd (initialize_route None dead_startup ready_state)) = [0] \<and>
   \<not> isClientReady (fst (initialize_route None dead_startup ready_state)) \<and>
   qrCodeData (fst (initialize_route None dead_startup ready_state)) = None"
proof -
  have d: "\<forall>i<3. startup_fails (dead_startup i)" "\<forall>i<3. signals_of (dead_startup i) = []"
    by (simp_all add: dead_startup_def)
  have r: "opening_close_returns None ready_state"
    by (simp add: opening_close_returns_def teardown_completes_def)
  from initialize_exhausted_outcome [OF d(1) r] d(2) r
  show ?thesis by (simp add: ready_state_eq) (simp add: dead_startup_def)
qed

text \<open>
  Claim C2 as stated fails: from a fresh process, after three failed attempts the
  variable \<open>client\<close> holds the third handle, which was never torn down.
\<close>

theorem exhausted_keeps_handle:
  "startup_fails (dead_startup 0) \<and> startup_fails (dead_startup 1) \<and>
   startup_fails (dead_startup 2) \<and>
   responses (snd (initialize_route None dead_startup initial)) =
     [InitError (Error ''launch failed'')] \<and>
   client (fst (initialize_route None dead_startup initial)) = Some 2 \<and>
   teardowns (snd (initialize_route None dead_startup initial)) = [] \<and>
   \<not> (client (fst (initialize_route None dead_startup initial)) = None)"
  by (simp add: dead_startup_def initial_def session_defs attempts3)

lemma precedes_head [simp]: "precedes a b (a # xs)"
  by simp

lemma attempts_first_constructs:
  "env 0 = Runs sigs r \<Longrightarrow> 0 < retries \<Longrightarrow>
   Construct (allocated s) \<in> set (snd (snd (attempts 0 retries env s)))"
  by (auto simp add: attempts.simps [of 0] Let_def split: option.splits prod.splits)

text \<open>
  Claim C5. When \<open>/initialize\<close> is called while \<open>isInitializing\<close> or \<open>isClientReady\<close>
  is set and \<open>client\<close> holds a handle, the teardown of that handle is the first
  external call of the request, whether it then resolves or rejects, so it precedes the
  construction of every new client. When it rejects, the request ends there and no
  client is constructed; when it resolves, a first attempt that gets as far as
  constructing a client does so afterwards.
\<close>

theorem initialize_tears_down_first:
  assumes "isInitializing s \<or> isClientReady s" and "client s = Some h"
  shows "(\<exists>rest. snd (initialize_route td env s) = Destroy h # rest) \<and>
         (\<forall>h'. precedes (Destroy h) (Construct h') (snd (initialize_route td env s))) \<and>
         (\<forall>e. td = Some e \<longrightarrow> snd (initialize_route td env s) = [Destroy h]) \<and>
         (td = None \<longrightarrow>
            (\<forall>sigs r. env 0 = Runs sigs r \<longrightarrow>
               Construct (allocated s) \<in> set (snd (initialize_route td env s))))"
proof (cases td)
  case (Some e)
  with assms have "\<not> opening_close_returns td s"
    by (simp add: opening_close_returns_def teardown_completes_def)
  from initialize_route_rejected [OF this, of env] assms(2) Some show ?thesis by auto
next
  case None
  then have ret: "opening_close_returns td s"
    by (simp add: opening_close_returns_def teardown_completes_def)
  let ?s1 = "(fst (opening_close s))\<lparr>isInitializing := True, isClientReady := False, qrCodeData := None\<rparr>"
  obtain r s2 evs1 where i: "initializeWhatsAppClient 3 env ?s1 = (r, s2, evs1)"
    by (cases "initializeWhatsAppClient 3 env ?s1") auto
  from initialize_route_unfold [OF ret i] assms
  have ev: "snd (initialize_route td env s) = Destroy h # evs1 @
      [Respond (case r of Inr success \<Rightarrow> if success then InitOk (qrCodeData s2) else InitGaveUp
                | Inl e \<Rightarrow> InitError e)]"
    by (simp add: close_trace)
  have "Construct (allocated s) \<in> set evs1" if "env 0 = Runs sigs r'" for sigs r'
    using attempts_first_constructs [of env sigs r' 3 ?s1] that i
    by (simp add: initializeWhatsAppClient_def)
  with ev None show ?thesis by auto
qed

theorem initialize_tears_down_first_witness:
  "isClientReady ready_state \<and> client ready_state = Some 0 \<and>
   snd (initialize_route None ready_startup ready_state) =
     [Destroy 0, Construct 1, Register 1, Initialize 1, Respond (InitOk None)] \<and>
   precedes (Destroy 0) (Construct 1) (snd (initialize_route None ready_startup ready_state)) \<and>
   snd (initialize_route (Some TypeError) ready_startup ready_state) = [Destroy 0]"
proof -
  have r: "isClientReady ready_state" and c: "client ready_state = Some 0"
    by (simp_all add: ready_state_eq)
  have f: "isInitializing ready_state \<or> isClientReady ready_state" using r by simp
  from initialize_tears_down_first [OF f c, of None ready_startup]
  have "precedes (Destroy 0) (Construct 1) (snd (initialize_route None ready_startup ready_state))"
    by blast
  moreover from initialize_tears_down_first [OF f c, of "Some TypeError" ready_startup]
  have "snd (initialize_route (Some TypeError) ready_startup ready_state) = [Destroy 0]"
    by blast
  moreover have "snd (initialize_route None ready_startup ready_state) =
     [Destroy 0, Construct 1, Register 1, Initialize 1, Respond (InitOk None)]"
    by (simp add: ready_state_eq ready_startup_def session_defs attempts3)
  ultimately show ?thesis using r c by simp
qed

lemma close_route_completes:
  "teardown_completes td s \<Longrightarrow>
   close_route td s =
     (absent s, map Destroy (case client s of None \<Rightarrow> [] | Some h \<Rightarrow> [h]) @ [Respond Closed])"
  by (simp add: close_route_def close_when_completes)

lemma close_route_rejects:
  "client s = Some h \<Longrightarrow> close_route (Some e) s = (s, [Destroy h])"
  by (simp add: close_route_def close_when_rejects)

lemma absent_completes [simp]: "teardown_completes td (absent s)"
  by (simp add: teardown_completes_def)

lemma absent_twice [simp]: "absent (absent s) = absent s"
  by (simp add: absent_def)

lemma run_closes:
  "teardown_completes td s \<Longrightarrow>
   fst (run (map GetClose (td # tds)) s) = absent s \<and>
   responses (snd (run (map GetClose (td # tds)) s)) = replicate (Suc (length tds)) Closed \<and>
   teardowns (snd (run (map GetClose (td # tds)) s)) =
     (case client s of None \<Rightarrow> [] | Some h \<Rightarrow> [h])"
proof (induction tds arbitrary: td s)
  case Nil
  then show ?case
    by (simp add: close_route_completes responses_append teardowns_append split: option.splits)
next
  case (Cons td' tds)
  have "run (map GetClose (td # td' # tds)) s =
     (fst (run (map GetClose (td' # tds)) (absent s)),
      snd (close_route td s) @ snd (run (map GetClose (td' # tds)) (absent s)))"
    using Cons.prems by (simp add: close_route_completes split: prod.splits)
  with Cons.IH [of td' "absent s"] Cons.prems show ?case
    by (simp add: close_route_completes responses_append teardowns_append split: option.splits)
qed

text \<open>
  Claim C7, as amended. A \<open>/close\<close> whose teardown completes (there is no handle, or
  \<open>destroy\<close> resolves) answers 200, tears down the handle if there is one, and leaves
  the state Absent: no handle, the ready flag and the initializing marker false, the
  challenge payload empty, so that \<open>/status\<close> reports not ready. Every further call then
  answers 200 whatever its teardown would do, since none is made, and changes nothing.
  With no prior Initialize there is no handle, so every sequence of calls succeeds.
\<close>

theorem close_resets_when_teardown_completes:
  "(teardown_completes td s \<longrightarrow>
      close_route td s =
        (absent s,
         map Destroy (case client s of None \<Rightarrow> [] | Some h \<Rightarrow> [h]) @ [Respond Closed]) \<and>
      (\<forall>tds. fst (run (map GetClose (td # tds)) s) = absent s \<and>
             responses (snd (run (map GetClose (td # tds)) s)) =
               replicate (Suc (length tds)) Closed \<and>
             teardowns (snd (run (map GetClose (td # tds)) s)) =
               (case client s of None \<Rightarrow> [] | Some h \<Rightarrow> [h]))) \<and>
   client (absent s) = None \<and> \<not> isClientReady (absent s) \<and>
   \<not> isInitializing (absent s) \<and> qrCodeData (absent s) = None \<and>
   status_code Closed = 200 \<and> status_route (absent s) = Status False \<and>
   close_route td' (absent s) = (absent s, [Respond Closed]) \<and>
   responses (snd (run (map GetClose tds') initial)) = replicate (length tds') Closed \<and>
   status_route (fst (run (map GetClose tds') initial)) = Status False"
proof -
  have fresh: "responses (snd (run (map GetClose tds') initial)) = replicate (length tds') Closed \<and>
      status_route (fst (run (map GetClose tds') initial)) = Status False"
  proof (cases tds')
    case Nil
    then show ?thesis by (simp add: status_route_def initial_def)
  next
    case (Cons t ts)
    have "teardown_completes t initial" by (simp add: teardown_completes_def initial_def)
    from run_closes [OF this, of ts] Cons show ?thesis by (simp add: status_route_def)
  qed
  have again: "close_route td' (absent s) = (absent s, [Respond Closed])"
    by (simp add: close_route_completes)
  from fresh again run_closes [of td s] show ?thesis
    by (simp add: close_route_completes status_route_def)
qed

theorem close_resets_when_teardown_completes_witness:
  "teardown_completes None ready_state \<and>
   close_route None ready_state = (initial\<lparr>allocated := 1\<rparr>, [Destroy 0, Respond Closed]) \<and>
   responses (snd (run [GetClose None, GetClose (Some TypeError), GetClose (Some TypeError)]
                     ready_state)) = [Closed, Closed, Closed] \<and>
   teardowns (snd (run [GetClose None, GetClose (Some TypeError), GetClose (Some TypeError)]
                     ready_state)) = [0] \<and>
   responses (snd (run [GetClose (Some TypeError), GetClose (Some TypeError)] initial)) =
     [Closed, Closed]"
proof -
  have c: "teardown_completes None ready_state" by (simp add: teardown_completes_def)
  have a: "absent ready_state = initial\<lparr>allocated := 1\<rparr>"
    by (simp add: absent_def ready_state_eq initial_def)
  from close_resets_when_teardown_completes [of None ready_state _ "[Some TypeError, Some TypeError]"] c
  have "close_route None ready_state =
          (absent ready_state,
           map Destroy (case client ready_state of None \<Rightarrow> [] | Some h \<Rightarrow> [h]) @ [Respond Closed])"
    "\<forall>tds. responses (snd (run (map GetClose (None # tds)) ready_state)) =
              replicate (Suc (length tds)) Closed \<and>
           teardowns (snd (run (map GetClose (None # tds)) ready_state)) =
              (case client ready_state of None \<Rightarrow> [] | Some h \<Rightarrow> [h])"
    "responses (snd (run (map GetClose [Some TypeError, Some TypeError]) initial)) =
       replicate (length [Some TypeError, Some TypeError]) Closed"
    by blast+
  from this(1) this(2) [rule_format, of "[Some TypeError, Some TypeError]"] this(3) c a
  show ?thesis by (simp add: ready_state_eq numeral_2_eq_2)
qed

text \<open>
  Claim C7 as stated fails: when \<open>destroy\<close> rejects, \<open>/close\<close> neither answers nor resets
  anything. From the ready state the handle and the ready flag stay; from the state
  left by three failed startup attempts the handle stays.
\<close>

theorem close_fails_when_teardown_rejects:
  "client ready_state = Some 0 \<and> isClientReady ready_state \<and>
   close_route (Some TypeError) ready_state = (ready_state, [Destroy 0]) \<and>
   responses (snd (close_route (Some TypeError) ready_state)) = [] \<and>
   \<not> (status_route (fst (close_route (Some TypeError) ready_state)) = Status False) \<and>
   client exhausted_state = Some 2 \<and>
   close_route (Some TypeError) exhausted_state = (exhausted_state, [Destroy 2]) \<and>
   \<not> (client (fst (close_route (Some TypeError) exhausted_state)) = None)"
  by (simp add: close_route_rejects ready_state_eq exhausted_state_eq status_route_def)

text \<open>
  Claim C6, as amended. The challenge handler stores the data URL of the challenge and
  nothing else; the ready handler sets the ready flag and clears the challenge payload;
  the auth-failure handler changes nothing; the disconnected handler clears the ready
  flag and changes nothing else, so the challenge payload and the handle are kept.
\<close>

theorem signal_handlers_effect:
  "exec (Signal (Qr qr)) s = (s\<lparr>qrCodeData := Some (toDataURL qr)\<rparr>, []) \<and>
   exec (Signal Ready) s = (s\<lparr>isClientReady := True, qrCodeData := None\<rparr>, []) \<and>
   exec (Signal (AuthFailure msg)) s = (s, []) \<and>
   exec (Signal (Disconnected reason)) s = (s\<lparr>isClientReady := False\<rparr>, []) \<and>
   status_route (fst (exec (Signal Ready) s)) = Status True \<and>
   status_route (fst (exec (Signal (AuthFailure msg)) s)) = status_route s \<and>
   status_route (fst (exec (Signal (Disconnected reason)) s)) = Status False \<and>
   qrCodeData (fst (exec (Signal (Disconnected reason)) s)) = qrCodeData s \<and>
   client (fst (exec (Signal (Disconnected reason)) s)) = client s"
  by (simp add: on_qr_def on_ready_def on_auth_failure_def on_disconnected_def status_route_def)

text \<open>
  Claim C6 as stated fails: a disconnected signal that arrives while a challenge is
  pending leaves the challenge payload and the handle in place.
\<close>

theorem disconnected_keeps_challenge:
  "qrCodeData awaiting_scan = Some (toDataURL ''2@abc'') \<and>
   \<not> (qrCodeData (fst (exec (Signal (Disconnected ''LOGOUT'')) awaiting_scan)) = None) \<and>
   client (fst (exec (Signal (Disconnected ''LOGOUT'')) awaiting_scan)) = Some 0"
  by (simp add: awaiting_scan_eq on_disconnected_def)

section \<open>The dispatch queue and the send jobs\<close>

lemma runs_append: "runs (xs @ ys) = runs xs @ runs ys"
  by (induction xs rule: runs.induct) auto

lemma enqueues_append: "enqueues (xs @ ys) = enqueues xs @ enqueues ys"
  by (induction xs rule: enqueues.induct) auto

lemma begin_job_ready_blind: "begin_job j (s\<lparr>isClientReady := b\<rparr>) = begin_job j s"
  by (cases j) (simp_all add: client_sendMessage_def)

lemma start_next_fields:
  "start_next owed s = (s', evs) \<Longrightarrow>
   client s' = client s \<and> qrCodeData s' = qrCodeData s \<and> isClientReady s' = isClientReady s \<and>
   isInitializing s' = isInitializing s \<and> allocated s' = allocated s"
proof (induction owed s arbitrary: s' evs rule: start_next.induct)
  case (1 owed s)
  show ?case
  proof (cases "length (inflight s) < concurrency")
    case False
    with "1.prems" show ?thesis by (simp add: start_next.simps [of owed s])
  next
    case True
    show ?thesis
    proof (cases "queued s")
      case Nil
      with True "1.prems" show ?thesis by (simp add: start_next.simps [of owed s])
    next
      case (Cons j js)
      obtain p bevs where b: "begin_job j s = (p, bevs)" by (cases "begin_job j s") auto
      show ?thesis
      proof (cases p)
        case (Suspended t)
        with True Cons b "1.prems" show ?thesis by (auto simp add: start_next.simps [of owed s])
      next
        case (Finished r)
        obtain s2 evs2 where n: "start_next [Respond (reply_of_job j r)] (s\<lparr>queued := js\<rparr>) = (s2, evs2)"
          by (cases "start_next [Respond (reply_of_job j r)] (s\<lparr>queued := js\<rparr>)") auto
        from "1.IH" [OF True Cons b [symmetric] Finished n]
        have "client s2 = client s \<and> qrCodeData s2 = qrCodeData s \<and> isClientReady s2 = isClientReady s \<and>
              isInitializing s2 = isInitializing s \<and> allocated s2 = allocated s" by simp
        moreover from True Cons b Finished n "1.prems" have "s' = s2"
          by (simp add: start_next.simps [of owed s])
        ultimately show ?thesis by simp
      qed
    qed
  qed
qed

lemma start_next_queue:
  "start_next owed s = (s', evs) \<Longrightarrow> runs owed = [] \<Longrightarrow> enqueues owed = [] \<Longrightarrow>
   runs evs @ queued s' = queued s \<and> enqueues evs = [] \<and>
   (length (inflight s) \<le> concurrency \<longrightarrow> length (inflight s') \<le> concurrency) \<and>
   (length (queued s) \<le> 1 \<or> concurrency \<le> Suc (length (inflight s)) \<longrightarrow>
      queued s' \<noteq> [] \<longrightarrow> concurrency \<le> length (inflight s'))"
proof (induction owed s arbitrary: s' evs rule: start_next.induct)
  case (1 owed s)
  show ?case
  proof (cases "length (inflight s) < concurrency")
    case False
    with "1.prems" show ?thesis by (auto simp add: start_next.simps [of owed s])
  next
    case True
    show ?thesis
    proof (cases "queued s")
      case Nil
      with True "1.prems" show ?thesis by (auto simp add: start_next.simps [of owed s])
    next
      case (Cons j js)
      obtain p bevs where b: "begin_job j s = (p, bevs)" by (cases "begin_job j s") auto
      have quiet: "runs bevs = [] \<and> enqueues bevs = []"
        using b by (cases j) (auto simp: client_sendMessage_def split: option.splits)
      show ?thesis
      proof (cases p)
        case (Suspended t)
        with True Cons b "1.prems" quiet show ?thesis
          by (auto simp add: start_next.simps [of owed s] runs_append enqueues_append)
      next
        case (Finished r)
        obtain s2 evs2 where n: "start_next [Respond (reply_of_job j r)] (s\<lparr>queued := js\<rparr>) = (s2, evs2)"
          by (cases "start_next [Respond (reply_of_job j r)] (s\<lparr>queued := js\<rparr>)") auto
        from "1.IH" [OF True Cons b [symmetric] Finished n]
        have ih: "runs evs2 @ queued s2 = js \<and> enqueues evs2 = [] \<and>
           (length (inflight s) \<le> concurrency \<longrightarrow> length (inflight s2) \<le> concurrency) \<and>
           (length js \<le> 1 \<or> concurrency \<le> Suc (length (inflight s)) \<longrightarrow>
              queued s2 \<noteq> [] \<longrightarrow> concurrency \<le> length (inflight s2))" by simp
        from True Cons b Finished n "1.prems"
        have "s' = s2" "evs = Run j # bevs @ owed @ evs2"
          by (simp_all add: start_next.simps [of owed s])
        with ih quiet Cons "1.prems"(2,3) show ?thesis
          by (auto simp add: runs_append enqueues_append)
      qed
    qed
  qed
qed

lemma try_attempt_queue:
  "try_attempt a s = (r, s', evs) \<Longrightarrow> queued s' = queued s \<and> inflight s' = inflight s"
  by (cases a) (auto simp: Let_def)

lemma attempts_queue:
  "attempts i retries env s = (r, s', evs) \<Longrightarrow> queued s' = queued s \<and> inflight s' = inflight s"
proof (induction i retries env s arbitrary: r s' evs rule: attempts.induct)
  case (1 i retries env s)
  obtain r1 s1 evs1 where t: "try_attempt (env i) s = (r1, s1, evs1)"
    by (cases "try_attempt (env i) s") auto
  note q = try_attempt_queue [OF t]
  show ?case
  proof (cases "i < retries \<and> r1 \<noteq> None \<and> i \<noteq> retries - 1")
    case True
    then obtain e where e: "r1 = Some e" by auto
    obtain r2 s2 evs2 where a: "attempts (Suc i) retries env s1 = (r2, s2, evs2)"
      by (cases "attempts (Suc i) retries env s1") auto
    from "1.IH" [of r1 "(s1, evs1)" e s1 evs1 r2 s2 evs2] t e True a
    have "queued s2 = queued s1 \<and> inflight s2 = inflight s1" by simp
    moreover from True t e a "1.prems" have "s' = s2"
      by (simp add: attempts.simps [of i])
    ultimately show ?thesis using q by simp
  next
    case False
    with t q "1.prems" show ?thesis
      by (cases r1) (auto simp add: attempts.simps [of i] split: if_splits)
  qed
qed

lemma startup_events_unqueued:
  "list_all startup_event evs \<Longrightarrow> runs evs = [] \<and> enqueues evs = []"
  by (induction evs rule: runs.induct) auto

lemma close_unqueued [simp]:
  "runs (snd (opening_close s)) = []" "enqueues (snd (opening_close s)) = []"
  by (simp_all add: close_trace split: option.splits)

lemma initialize_route_queue:
  assumes "initialize_route td env s = (s', evs)"
  shows "queued s' = queued s \<and> inflight s' = inflight s \<and> runs evs = [] \<and> enqueues evs = []"
proof (cases "opening_close_returns td s")
  case True
  let ?c = "opening_close s"
  let ?s1 = "(fst ?c)\<lparr>isInitializing := True, isClientReady := False, qrCodeData := None\<rparr>"
  obtain r s2 evs1 where i: "initializeWhatsAppClient 3 env ?s1 = (r, s2, evs1)"
    by (cases "initializeWhatsAppClient 3 env ?s1") auto
  then have a: "attempts 0 3 env ?s1 = (r, s2, evs1)" by (simp add: initializeWhatsAppClient_def)
  from attempts_queue [OF a] have q: "queued s2 = queued s" "inflight s2 = inflight s" by simp_all
  from attempts_events [of 0 3 env ?s1] a have "list_all startup_event evs1" by simp
  then have u: "runs evs1 = []" "enqueues evs1 = []" using startup_events_unqueued by auto
  from initialize_route_unfold [OF True i] assms q u show ?thesis
    by (auto simp add: runs_append enqueues_append)
next
  case False
  from initialize_route_rejected [OF this, of env] assms show ?thesis by auto
qed

lemma close_route_queue:
  assumes "close_route td s = (s', evs)"
  shows "queued s' = queued s \<and> inflight s' = inflight s \<and> runs evs = [] \<and> enqueues evs = []"
proof (cases "teardown_completes td s")
  case True
  from close_route_completes [OF this] assms show ?thesis
    by (auto simp add: runs_append enqueues_append split: option.splits)
next
  case False
  then obtain h e where "client s = Some h" "td = Some e"
    by (auto simp add: teardown_completes_def)
  with close_route_rejects [of s h e] assms show ?thesis by auto
qed

lemma queue_add_inv:
  assumes "queue_inv s" and "queue_add j s = (s', evs)"
  shows "queue_inv s' \<and> runs evs @ queued s' = queued s @ [j] \<and> enqueues evs = [j]"
proof -
  let ?s1 = "s\<lparr>queued := queued s @ [j]\<rparr>"
  obtain s2 evs2 where n: "start_next [] ?s1 = (s2, evs2)" by (cases "start_next [] ?s1") auto
  with assms(2) have eq: "s' = s2" "evs = Enqueue j # evs2" by (simp_all add: queue_add_def)
  from assms(1) have pre: "length (queued ?s1) \<le> 1 \<or> concurrency \<le> Suc (length (inflight ?s1))"
    by (cases "queued s") (auto simp: queue_inv_def)
  from start_next_queue [OF n] pre assms(1) eq show ?thesis
    by (auto simp: queue_inv_def)
qed

lemma resume_unqueued:
  "resume t res s = (p, evs) \<Longrightarrow> runs evs = [] \<and> enqueues evs = []"
  by (cases "(t, res, s)" rule: resume.cases)
     (auto simp: client_sendMessage_def Let_def split: option.splits)

lemma settle_inv:
  assumes "queue_inv s" and "settle i res s = (s', evs)"
  shows "queue_inv s' \<and> runs evs @ queued s' = queued s \<and> enqueues evs = []"
proof (cases "i < length (inflight s)")
  case False
  with assms show ?thesis by (simp add: settle_def)
next
  case True
  obtain p revs where r: "resume (inflight s ! i) res s = (p, revs)"
    by (cases "resume (inflight s ! i) res s") auto
  note u = resume_unqueued [OF r]
  show ?thesis
  proof (cases p)
    case (Suspended t)
    with True r assms u show ?thesis by (auto simp: settle_def queue_inv_def)
  next
    case (Finished out)
    let ?s1 = "s\<lparr>inflight := take i (inflight s) @ drop (Suc i) (inflight s)\<rparr>"
    let ?owed = "[Respond (reply_of_task (inflight s ! i) out)]"
    obtain s2 evs2 where n: "start_next ?owed ?s1 = (s2, evs2)"
      by (cases "start_next ?owed ?s1") auto
    from True r Finished n assms(2)
    have eq: "s' = s2" "evs = revs @ evs2"
      by (simp_all add: settle_def)
    from True have len: "Suc (length (inflight ?s1)) = length (inflight s)" by auto
    with assms(1) have pre: "length (queued ?s1) \<le> 1 \<or> concurrency \<le> Suc (length (inflight ?s1))"
      by (cases "queued s") (auto simp: queue_inv_def)
    have le: "length (inflight ?s1) \<le> concurrency"
      using len assms(1) unfolding queue_inv_def by linarith
    from start_next_queue [OF n] pre le eq u show ?thesis
      by (auto simp: queue_inv_def runs_append enqueues_append)
  qed
qed

lemma exec_inv:
  assumes "queue_inv s" and "exec a s = (s', evs)"
  shows "queue_inv s' \<and> runs evs @ queued s' = queued s @ enqueues evs"
proof (cases a)
  case (GetInitialize td env)
  with assms initialize_route_queue [of td env s s' evs] show ?thesis by (simp add: queue_inv_def)
next
  case (GetClose td)
  with assms close_route_queue [of td s s' evs] show ?thesis by (simp add: queue_inv_def)
next
  case GetStatus
  with assms show ?thesis by auto
next
  case (GetSendMessage q)
  with assms queue_add_inv [OF assms(1)] show ?thesis
    by (auto simp add: send_message_route_def split: if_splits)
next
  case (GetSendMessageMedia q)
  with assms queue_add_inv [OF assms(1)] show ?thesis
    by (auto simp add: send_message_media_route_def split: if_splits)
next
  case (Signal sig)
  with assms show ?thesis by (auto simp: queue_inv_def)
next
  case (Settle i res)
  with assms settle_inv [OF assms(1)] show ?thesis by auto
qed

lemma run_inv:
  "queue_inv s \<Longrightarrow> run acts s = (s', evs) \<Longrightarrow>
   queue_inv s' \<and> runs evs @ queued s' = queued s @ enqueues evs"
proof (induction acts arbitrary: s s' evs)
  case Nil
  then show ?case by simp
next
  case (Cons a acts)
  obtain s1 evs1 where e: "exec a s = (s1, evs1)" by (cases "exec a s") auto
  obtain s2 evs2 where r: "run acts s1 = (s2, evs2)" by (cases "run acts s1") auto
  from exec_inv [OF Cons.prems(1) e]
  have i1: "queue_inv s1" and f1: "runs evs1 @ queued s1 = queued s @ enqueues evs1" by simp_all
  from Cons.IH [OF i1 r]
  have i2: "queue_inv s2" and f2: "runs evs2 @ queued s2 = queued s1 @ enqueues evs2" by simp_all
  from e r Cons.prems(2) have eq: "s' = s2" "evs = evs1 @ evs2" by simp_all
  have "runs (evs1 @ evs2) @ queued s2 = runs evs1 @ (runs evs2 @ queued s2)"
    by (simp add: runs_append)
  also have "\<dots> = (runs evs1 @ queued s1) @ enqueues evs2" using f2 by simp
  also have "\<dots> = queued s @ enqueues (evs1 @ evs2)" using f1 by (simp add: enqueues_append)
  finally show ?case using i2 eq by simp
qed

lemma start_next_full:
  "concurrency \<le> length (inflight s) \<Longrightarrow> start_next owed s = (s, owed)"
  by (simp add: start_next.simps [of owed s])

lemma start_next_blocks:
  "length (inflight s) < concurrency \<Longrightarrow> queued s = j # js \<Longrightarrow>
   begin_job j s = (Suspended t, evs) \<Longrightarrow>
   start_next owed s = (s\<lparr>queued := js, inflight := inflight s @ [t]\<rparr>, Run j # evs @ owed)"
  by (simp add: start_next.simps [of owed s])

lemma start_next_settles:
  "length (inflight s) < concurrency \<Longrightarrow> queued s = j # js \<Longrightarrow>
   begin_job j s = (Finished r, evs) \<Longrightarrow>
   start_next owed s =
     (fst (start_next [Respond (reply_of_job j r)] (s\<lparr>queued := js\<rparr>)),
      Run j # evs @ owed @ snd (start_next [Respond (reply_of_job j r)] (s\<lparr>queued := js\<rparr>)))"
  by (simp add: start_next.simps [of owed s] split: prod.splits)

lemma begin_job_queue_blind [simp]:
  "begin_job j (s\<lparr>queued := q\<rparr>) = begin_job j s"
  "begin_job j (s\<lparr>inflight := f\<rparr>) = begin_job j s"
  by (cases j; simp add: client_sendMessage_def)+

lemma begin_job_blocks:
  "client s = Some h \<Longrightarrow> \<exists>t evs. begin_job j s = (Suspended t, evs)"
  by (cases j) (simp_all add: client_sendMessage_def)

lemma exec_request:
  "isClientReady s \<Longrightarrow> presentable j \<Longrightarrow> exec (request_of j) s = queue_add j s"
  by (cases j) (simp_all add: send_message_route_def send_message_media_route_def truthy_def)

lemma queue_add_free:
  assumes "client s = Some h" and "length (inflight s) < concurrency" and "queued s = []"
  shows "\<exists>t evs. queue_add j s = (s\<lparr>queued := [], inflight := inflight s @ [t]\<rparr>, Enqueue j # Run j # evs)
           \<and> begin_job j s = (Suspended t, evs)"
proof -
  from begin_job_blocks [OF assms(1), of j]
  obtain t evs where b: "begin_job j s = (Suspended t, evs)" by auto
  let ?s1 = "s\<lparr>queued := queued s @ [j]\<rparr>"
  have "start_next [] ?s1 = (?s1\<lparr>queued := [], inflight := inflight ?s1 @ [t]\<rparr>, Run j # evs @ [])"
    using assms b by (intro start_next_blocks) simp_all
  with b show ?thesis by (simp add: queue_add_def)
qed

lemma queue_add_saturated:
  "concurrency \<le> length (inflight s) \<Longrightarrow>
   queue_add j s = (s\<lparr>queued := queued s @ [j]\<rparr>, [Enqueue j])"
  by (simp add: queue_add_def start_next_full)

lemma queue_add_fields:
  "queue_add j s = (s', evs) \<Longrightarrow> client s' = client s \<and> isClientReady s' = isClientReady s"
proof -
  assume a: "queue_add j s = (s', evs)"
  obtain s2 evs2 where n: "start_next [] (s\<lparr>queued := queued s @ [j]\<rparr>) = (s2, evs2)"
    by (cases "start_next [] (s\<lparr>queued := queued s @ [j]\<rparr>)") auto
  with a have "s' = s2" by (simp add: queue_add_def)
  with start_next_fields [OF n] show ?thesis by simp
qed

lemma submit_all:
  "isClientReady s \<Longrightarrow> client s = Some h \<Longrightarrow> queue_inv s \<Longrightarrow> list_all presentable js \<Longrightarrow>
   run (map request_of js) s = (s', evs) \<Longrightarrow>
   runs evs = take (concurrency - length (inflight s)) js \<and>
   queued s' = queued s @ drop (concurrency - length (inflight s)) js \<and>
   length (inflight s') = length (inflight s) + min (concurrency - length (inflight s)) (length js) \<and>
   enqueues evs = js"
proof (induction js arbitrary: s s' evs)
  case Nil
  then show ?case by simp
next
  case (Cons j js)
  obtain s1 evs1 where e: "exec (request_of j) s = (s1, evs1)" by (cases "exec (request_of j) s") auto
  obtain s2 evs2 where r: "run (map request_of js) s1 = (s2, evs2)"
    by (cases "run (map request_of js) s1") auto
  from e r Cons.prems(5) have eq: "s' = s2" "evs = evs1 @ evs2" by simp_all
  from Cons.prems(4) have pj: "presentable j" and pjs: "list_all presentable js" by simp_all
  from exec_request [OF Cons.prems(1) pj] e have qa: "queue_add j s = (s1, evs1)" by simp
  from queue_add_fields [OF qa] Cons.prems(1,2) have f1: "isClientReady s1" "client s1 = Some h" by simp_all
  from queue_add_inv [OF Cons.prems(3) qa] have i1: "queue_inv s1" and en: "enqueues evs1 = [j]" by simp_all
  note ih = Cons.IH [OF f1 i1 pjs r]
  show ?case
  proof (cases "length (inflight s) < concurrency")
    case True
    with Cons.prems(3) have q: "queued s = []" by (auto simp: queue_inv_def)
    from queue_add_free [OF Cons.prems(2) True q, of j] qa
    obtain t bevs where s1: "s1 = s\<lparr>queued := [], inflight := inflight s @ [t]\<rparr>"
      and ev1: "evs1 = Enqueue j # Run j # bevs" and b: "begin_job j s = (Suspended t, bevs)" by auto
    have quiet: "runs bevs = []"
      using b by (cases j) (auto simp: client_sendMessage_def split: option.splits)
    from True obtain d where d: "concurrency - length (inflight s) = Suc d" 
      by (cases "concurrency - length (inflight s)") auto
    then have d': "concurrency - Suc (length (inflight s)) = d" by simp
    from ih s1 ev1 quiet eq q d d' en show ?thesis
      by (simp add: runs_append enqueues_append)
  next
    case False
    then have full: "concurrency \<le> length (inflight s)" by simp
    from queue_add_saturated [OF full, of j] qa
    have s1: "s1 = s\<lparr>queued := queued s @ [j]\<rparr>" and ev1: "evs1 = [Enqueue j]" by simp_all
    from full have z: "concurrency - length (inflight s) = 0" by simp
    from ih s1 ev1 eq z show ?thesis by (simp add: runs_append enqueues_append)
  qed
qed

lemma queue_inv_initial: "queue_inv initial"
  by (simp add: queue_inv_def initial_def)

text \<open>
  Claim C4. The limit is 3. In every state the server reaches from its start, by any
  sequence of requests, signals and settling promises, at most 3 jobs are in flight, and
  the jobs the queue has invoked followed by the jobs still waiting are exactly the jobs
  submitted, in submission order. Submitting \<open>3 + k\<close> jobs that all block, to an empty
  queue of a ready session, leaves the first 3 in flight and the last \<open>k\<close> waiting.
\<close>

theorem dispatch_queue_bounded_fifo:
  "concurrency = 3 \<and>
   length (inflight (fst (run acts initial))) \<le> concurrency \<and>
   runs (snd (run acts initial)) @ queued (fst (run acts initial)) = enqueues (snd (run acts initial)) \<and>
   (\<forall>k. isClientReady s \<and> client s \<noteq> None \<and> queued s = [] \<and> inflight s = [] \<and>
        list_all presentable js \<and> length js = concurrency + k \<longrightarrow>
        length (inflight (fst (run (map request_of js) s))) = concurrency \<and>
        length (queued (fst (run (map request_of js) s))) = k \<and>
        runs (snd (run (map request_of js) s)) = take concurrency js \<and>
        queued (fst (run (map request_of js) s)) = drop concurrency js)"
proof -
  obtain s' evs where r: "run acts initial = (s', evs)" by (cases "run acts initial") auto
  from run_inv [OF queue_inv_initial r]
  have a: "length (inflight s') \<le> concurrency" "runs evs @ queued s' = enqueues evs"
    by (simp_all add: queue_inv_def initial_def)
  have b: "length (inflight (fst (run (map request_of js) s))) = concurrency \<and>
        length (queued (fst (run (map request_of js) s))) = k \<and>
        runs (snd (run (map request_of js) s)) = take concurrency js \<and>
        queued (fst (run (map request_of js) s)) = drop concurrency js"
    if h: "isClientReady s" "client s \<noteq> None" "queued s = []" "inflight s = []"
      "list_all presentable js" "length js = concurrency + k" for k
  proof -
    from h(2) obtain hd where c: "client s = Some hd" by auto
    from h(3,4) have i: "queue_inv s" by (simp add: queue_inv_def)
    obtain s2 evs2 where r2: "run (map request_of js) s = (s2, evs2)"
      by (cases "run (map request_of js) s") auto
    from submit_all [OF h(1) c i h(5) r2] h(3,4,6) r2 show ?thesis by simp
  qed
  from a b r show ?thesis by (simp add: concurrency_def)
qed

lemmas queue_eval = send_message_route_def send_message_media_route_def truthy_def queue_add_def
  start_next.simps concurrency_def client_sendMessage_def pic_job_def settle_def
  close_route_def closeWhatsAppSession_def on_disconnected_def

lemma disconnected_backlog_eq:
  "disconnected_backlog = \<lparr>client = Some 0, qrCodeData = None, isClientReady = False,
     isInitializing = False, queued = [TextJob ''5551234567'' ''hi''],
     inflight = [AwaitFetch ''5551234567'' ''hi'' ''http://files.example/img/pic.png'',
                 AwaitFetch ''5551234567'' ''hi'' ''http://files.example/img/pic.png'',
                 AwaitFetch ''5551234567'' ''hi'' ''http://files.example/img/pic.png''],
     allocated = 1\<rparr>"
  by (simp add: disconnected_backlog_def ready_state_eq queue_eval)

lemma closed_backlog_eq:
  "closed_backlog = \<lparr>client = None, qrCodeData = None, isClientReady = False,
     isInitializing = False, queued = [TextJob ''5551234567'' ''hi''],
     inflight = [AwaitFetch ''5551234567'' ''hi'' ''http://files.example/img/pic.png'',
                 AwaitFetch ''5551234567'' ''hi'' ''http://files.example/img/pic.png'',
                 AwaitFetch ''5551234567'' ''hi'' ''http://files.example/img/pic.png''],
     allocated = 1\<rparr>"
  by (simp add: closed_backlog_def ready_state_eq queue_eval)

theorem dispatch_queue_bounded_fifo_witness:
  "isClientReady ready_state \<and> client ready_state \<noteq> None \<and>
   queued ready_state = [] \<and> inflight ready_state = [] \<and>
   list_all presentable burst \<and> length burst = concurrency + 1 \<and>
   length (inflight (fst (run (map request_of burst) ready_state))) = 3 \<and>
   runs (snd (run (map request_of burst) ready_state)) =
     [TextJob ''5551234567'' ''one'', pic_job, pic_job] \<and>
   queued (fst (run (map request_of burst) ready_state)) = [TextJob ''5551234567'' ''four'']"
proof -
  have h: "isClientReady ready_state" "client ready_state \<noteq> None"
    "queued ready_state = []" "inflight ready_state = []"
    by (simp_all add: ready_state_eq)
  have j: "list_all presentable burst" "length burst = concurrency + 1"
    by (simp_all add: burst_def pic_job_def concurrency_def)
  from dispatch_queue_bounded_fifo [of "[]" ready_state burst] h j
  have "length (inflight (fst (run (map request_of burst) ready_state))) = concurrency \<and>
        runs (snd (run (map request_of burst) ready_state)) = take concurrency burst \<and>
        queued (fst (run (map request_of burst) ready_state)) = drop concurrency burst"
    by blast
  then show ?thesis using h j by (simp add: concurrency_def) (simp add: burst_def)
qed

text \<open>
  Claim C3, as amended. While the ready flag is false, a send request (text or media)
  that carries all its required parameters is answered 503 and one that lacks a
  parameter is answered 400; in both cases nothing is handed to the queue and the whole
  state, the waiting and in-flight jobs included, is unchanged.
\<close>

theorem send_rejected_while_not_ready:
  assumes "\<not> isClientReady s"
  shows "send_message_route q s =
           (s, [Respond (if truthy (q_phone q) \<and> truthy (q_message q)
                         then NotReady else MissingParams)]) \<and>
         send_message_media_route q s =
           (s, [Respond (if truthy (q_phone q) \<and> truthy (q_message q) \<and> truthy (q_fileUrl q)
                         then NotReady else MissingParams)]) \<and>
         status_code NotReady = 503 \<and> status_code MissingParams = 400"
  using assms by (simp add: send_message_route_def send_message_media_route_def)

theorem send_rejected_while_not_ready_witness:
  "\<not> isClientReady initial \<and>
   send_message_route hello_query initial = (initial, [Respond NotReady]) \<and>
   send_message_media_route hello_query initial = (initial, [Respond MissingParams])"
proof -
  have n: "\<not> isClientReady initial" by (simp add: initial_def)
  from send_rejected_while_not_ready [OF n, of hello_query] n show ?thesis
    by (simp add: hello_query_def truthy_def)
qed

text \<open>
  Claim C3 as stated fails: while the session is not ready, a text submission without a
  message is answered 400, not 503, because the parameters are checked first.
\<close>

theorem missing_parameter_answers_400:
  "\<not> isClientReady initial \<and>
   send_message_route no_message_query initial = (initial, [Respond MissingParams]) \<and>
   status_code MissingParams = 400 \<and>
   \<not> (responses (snd (send_message_route no_message_query initial)) = [NotReady])"
  by (simp add: initial_def send_message_route_def no_message_query_def truthy_def)

lemma resume_ready_blind: "resume t res (s\<lparr>isClientReady := b\<rparr>) = resume t res s"
  by (cases "(t, res, s)" rule: resume.cases) (simp_all add: client_sendMessage_def Let_def)

lemma start_next_ready_blind:
  "start_next owed (s\<lparr>isClientReady := b\<rparr>) =
     (case start_next owed s of (s', evs) \<Rightarrow> (s'\<lparr>isClientReady := b\<rparr>, evs))"
proof (induction owed s rule: start_next.induct)
  case (1 owed s)
  show ?case
  proof (cases "length (inflight s) < concurrency")
    case False
    then show ?thesis
      by (simp add: start_next.simps [of owed s] start_next.simps [of owed "s\<lparr>isClientReady := b\<rparr>"])
  next
    case True
    show ?thesis
    proof (cases "queued s")
      case Nil
      with True show ?thesis
        by (simp add: start_next.simps [of owed s] start_next.simps [of owed "s\<lparr>isClientReady := b\<rparr>"])
    next
      case (Cons j js)
      obtain p bevs where bj: "begin_job j s = (p, bevs)" by (cases "begin_job j s") auto
      then have bj': "begin_job j (s\<lparr>isClientReady := b\<rparr>) = (p, bevs)"
        by (simp add: begin_job_ready_blind)
      show ?thesis
      proof (cases p)
        case (Suspended t)
        with True Cons bj bj' show ?thesis
          by (simp add: start_next.simps [of owed s]
                start_next.simps [of owed "s\<lparr>isClientReady := b\<rparr>"])
      next
        case (Finished r)
        from "1.IH" [OF True Cons bj [symmetric] Finished]
        have ih: "start_next [Respond (reply_of_job j r)] (s\<lparr>queued := js, isClientReady := b\<rparr>) =
           (case start_next [Respond (reply_of_job j r)] (s\<lparr>queued := js\<rparr>) of
              (s', evs) \<Rightarrow> (s'\<lparr>isClientReady := b\<rparr>, evs))"
          by simp
        have upd: "s\<lparr>isClientReady := b, queued := js\<rparr> = s\<lparr>queued := js, isClientReady := b\<rparr>"
          by simp
        from True Cons bj bj' Finished ih show ?thesis
          by (simp add: start_next.simps [of owed s]
                start_next.simps [of owed "s\<lparr>isClientReady := b\<rparr>"] upd split: prod.splits)
      qed
    qed
  qed
qed

lemma settle_ready_blind:
  "settle i res (s\<lparr>isClientReady := b\<rparr>) =
     (case settle i res s of (s', evs) \<Rightarrow> (s'\<lparr>isClientReady := b\<rparr>, evs))"
proof -
  have upd: "s\<lparr>isClientReady := b, inflight := f\<rparr> = s\<lparr>inflight := f, isClientReady := b\<rparr>" for f
    by simp
  show ?thesis
    by (cases "resume (inflight s ! i) res s")
       (auto simp add: settle_def resume_ready_blind start_next_ready_blind upd
          split: prod.splits progress.splits)
qed

lemma settle_runs_head:
  assumes "queued s = j # js" and "length (inflight s) = concurrency" and "i < concurrency"
    and "resume (inflight s ! i) res s = (Finished out, evs0)"
  shows "\<exists>rest. snd (settle i res s) =
           evs0 @ Run j # snd (begin_job j s) @ Respond (reply_of_task (inflight s ! i) out) # rest"
proof -
  let ?s1 = "s\<lparr>inflight := take i (inflight s) @ drop (Suc i) (inflight s)\<rparr>"
  let ?owed = "[Respond (reply_of_task (inflight s ! i) out)]"
  from assms(2,3) have lt: "length (inflight ?s1) < concurrency" by auto
  have q: "queued ?s1 = j # js" using assms(1) by simp
  obtain p bevs where b: "begin_job j s = (p, bevs)" by (cases "begin_job j s") auto
  then have b1: "begin_job j ?s1 = (p, bevs)" by simp
  have "\<exists>rest. snd (start_next ?owed ?s1) = Run j # bevs @ ?owed @ rest"
  proof (cases p)
    case (Suspended t)
    with start_next_blocks [OF lt q, of t bevs ?owed] b1 show ?thesis by simp
  next
    case (Finished r)
    with start_next_settles [OF lt q, of r bevs ?owed] b1 show ?thesis by simp
  qed
  then obtain rest where "snd (start_next ?owed ?s1) = Run j # bevs @ ?owed @ rest" by auto
  with assms b show ?thesis by (auto simp add: settle_def split: prod.splits)
qed

lemma settle_suspends:
  "i < length (inflight s) \<Longrightarrow> resume (inflight s ! i) res s = (Suspended t', evs) \<Longrightarrow>
   settle i res s = (s\<lparr>inflight := (inflight s)[i := t']\<rparr>, evs)"
  by (simp add: settle_def)

text \<open>
  Claim C9. No stretch of a job body reads the ready flag, and neither does the queue:
  once a job is admitted, all that happens to it is the same whatever the flag is set to
  meanwhile. Every send of every job is a call on whatever \<open>client\<close> holds when that
  stretch runs: the send of a text job at its start, and for a media job the text send
  when the fetch has resolved and the media send when the text send has resolved; each
  throws a TypeError, ending the job, when \<open>client\<close> is \<open>null\<close> by then. A job waiting
  behind a full queue is invoked when an in-flight job ends, against the state of that
  moment, before the ended job's route answers.
\<close>

theorem job_ignores_ready_flag:
  "begin_job j (s\<lparr>isClientReady := b\<rparr>) = begin_job j s \<and>
   resume t res (s\<lparr>isClientReady := b\<rparr>) = resume t res s \<and>
   settle i res (s\<lparr>isClientReady := b\<rparr>) =
     (case settle i res s of (s', evs) \<Rightarrow> (s'\<lparr>isClientReady := b\<rparr>, evs)) \<and>
   begin_job (TextJob phone message) s =
     (case client s of
        None \<Rightarrow> (Finished (Some TypeError), [])
      | Some h \<Rightarrow> (Suspended AwaitSend, [Send h (phone @ ''@c.us'') (Text message)])) \<and>
   begin_job (MediaJob phone message fileUrl) s =
     (Suspended (AwaitFetch phone message fileUrl), [Fetch fileUrl]) \<and>
   resume (AwaitFetch phone message fileUrl) (Resolves response) s =
     (case client s of
        None \<Rightarrow> (Finished (Some TypeError), [])
      | Some h \<Rightarrow>
          (Suspended (AwaitTextSent (phone @ ''@c.us'')
             \<lparr>mimetype = map_of (headers response) ''content-type'',
                data = base64 (body response),
                filename = last (split CHR ''/'' fileUrl)\<rparr>),
           [Send h (phone @ ''@c.us'') (Text message)])) \<and>
   resume (AwaitTextSent chatId m) (Resolves response) s =
     (case client s of
        None \<Rightarrow> (Finished (Some TypeError), [])
      | Some h \<Rightarrow> (Suspended AwaitMediaSent, [Send h chatId (Media m)])) \<and>
   (i < length (inflight s) \<and> resume (inflight s ! i) res s = (Suspended t', evs1) \<longrightarrow>
      settle i res s = (s\<lparr>inflight := (inflight s)[i := t']\<rparr>, evs1)) \<and>
   (queued s = j # js \<and> length (inflight s) = concurrency \<and> i < concurrency \<and>
    resume (inflight s ! i) res s = (Finished out, evs0) \<longrightarrow>
      (\<exists>rest. snd (settle i res s) =
         evs0 @ Run j # snd (begin_job j s) @
         Respond (reply_of_task (inflight s ! i) out) # rest))"
  using settle_runs_head [of s j js i res out evs0] settle_suspends [of i s res t' evs1]
  by (simp add: begin_job_ready_blind resume_ready_blind settle_ready_blind
        client_sendMessage_def MessageMedia_def Let_def)

theorem job_ignores_ready_flag_witness:
  "\<not> isClientReady disconnected_backlog \<and>
   queued disconnected_backlog = [TextJob ''5551234567'' ''hi''] \<and>
   length (inflight disconnected_backlog) = concurrency \<and>
   snd (settle 0 (Rejects (Error ''timeout'')) disconnected_backlog) =
     [Run (TextJob ''5551234567'' ''hi''), Send 0 ''5551234567@c.us'' (Text ''hi''),
      Respond MediaSendError] \<and>
   snd (settle 1 (Resolves png_response) disconnected_backlog) =
     [Send 0 ''5551234567@c.us'' (Text ''hi'')] \<and>
   client closed_backlog = None \<and>
   snd (settle 0 (Rejects (Error ''timeout'')) closed_backlog) =
     [Run (TextJob ''5551234567'' ''hi''), Respond MediaSendError, Respond SendError] \<and>
   snd (settle 1 (Resolves png_response) closed_backlog) =
     [Run (TextJob ''5551234567'' ''hi''), Respond MediaSendError, Respond SendError]"
proof -
  have a: "queued disconnected_backlog = [TextJob ''5551234567'' ''hi'']"
    "length (inflight disconnected_backlog) = concurrency" "(0::nat) < concurrency"
    "\<not> isClientReady disconnected_backlog"
    "resume (inflight disconnected_backlog ! 0) (Rejects (Error ''timeout'')) disconnected_backlog =
       (Finished (Some (Error ''timeout'')), [])"
    by (simp_all add: disconnected_backlog_eq concurrency_def)
  from job_ignores_ready_flag [where s = disconnected_backlog and j = "TextJob ''5551234567'' ''hi''"
      and js = "[]" and i = 0 and res = "Rejects (Error ''timeout'')"
      and out = "Some (Error ''timeout'')" and ?evs0.0 = "[]" and b = False and t = AwaitSend
      and phone = "[]" and message = "[]" and fileUrl = "[]" and response = png_response
      and chatId = "[]" and t' = AwaitSend and ?evs1.0 = "[]"] a
  have "\<exists>rest. snd (settle 0 (Rejects (Error ''timeout'')) disconnected_backlog) =
     [] @ Run (TextJob ''5551234567'' ''hi'') #
     snd (begin_job (TextJob ''5551234567'' ''hi'') disconnected_backlog) @
     Respond (reply_of_task (inflight disconnected_backlog ! 0) (Some (Error ''timeout''))) # rest"
    by blast
  moreover have "snd (settle 0 (Rejects (Error ''timeout'')) disconnected_backlog) =
     [Run (TextJob ''5551234567'' ''hi''), Send 0 ''5551234567@c.us'' (Text ''hi''),
      Respond MediaSendError]"
    by (simp add: disconnected_backlog_eq queue_eval)
  moreover have "snd (settle 1 (Resolves png_response) disconnected_backlog) =
     [Send 0 ''5551234567@c.us'' (Text ''hi'')]"
    by (simp add: disconnected_backlog_eq queue_eval Let_def)
  moreover have "client closed_backlog = None \<and>
     snd (settle 0 (Rejects (Error ''timeout'')) closed_backlog) =
     [Run (TextJob ''5551234567'' ''hi''), Respond MediaSendError, Respond SendError] \<and>
     snd (settle 1 (Resolves png_response) closed_backlog) =
     [Run (TextJob ''5551234567'' ''hi''), Respond MediaSendError, Respond SendError]"
    by (simp add: closed_backlog_eq queue_eval Let_def)
  ultimately show ?thesis using a by simp
qed

lemma split_nonempty: "split sep cs \<noteq> []"
  by (induction cs) (auto split: list.splits)

text \<open>
  Claim C8, as amended. A media job first fetches the file; when the fetch rejects, the
  job fails and nothing is sent. When it resolves and \<open>client\<close> holds a handle, the text
  is sent to \<open><phone>@c.us\<close>; once that send has resolved the media payload is sent to
  the same destination, with the content type of the response headers, the last
  \<open>/\<close>-separated segment of the URL as file name and the base64 text of the body
  (\<open>AQI=\<close> for the bytes 1, 2): two sends in all. When the text send rejects the job
  fails after that one send, and with no handle it fails before any send.
\<close>

theorem media_job_steps:
  "run_job (MediaJob phone message fileUrl) [] s =
     (Suspended (AwaitFetch phone message fileUrl), [Fetch fileUrl]) \<and>
   run_job (MediaJob phone message fileUrl) (Rejects e # rs) s =
     (Finished (Some e), [Fetch fileUrl]) \<and>
   (client s = Some h \<longrightarrow>
      run_job (MediaJob phone message fileUrl) [Resolves response, Resolves v1, Resolves v2] s =
        (Finished None,
         [Fetch fileUrl,
          Send h (phone @ ''@c.us'') (Text message),
          Send h (phone @ ''@c.us'')
            (Media \<lparr>mimetype = map_of (headers response) ''content-type'',
                    data = base64 (body response),
                    filename = last (split CHR ''/'' fileUrl)\<rparr>)]) \<and>
      run_job (MediaJob phone message fileUrl) (Resolves response # Rejects e # rs) s =
        (Finished (Some e), [Fetch fileUrl, Send h (phone @ ''@c.us'') (Text message)])) \<and>
   (client s = None \<longrightarrow>
      run_job (MediaJob phone message fileUrl) (Resolves response # rs) s =
        (Finished (Some TypeError), [Fetch fileUrl])) \<and>
   split CHR ''/'' fileUrl \<noteq> [] \<and>
   base64 [0x01, 0x02] = ''AQI=''"
  by (simp add: run_job_def client_sendMessage_def MessageMedia_def Let_def split_nonempty
        b64_char_def b64_alphabet_def)

theorem media_job_steps_witness:
  "client ready_state = Some 0 \<and>
   run_job pic_job [Resolves png_response, Resolves png_response, Resolves png_response] ready_state =
     (Finished None,
      [Fetch ''http://files.example/img/pic.png'',
       Send 0 ''5551234567@c.us'' (Text ''hi''),
       Send 0 ''5551234567@c.us''
         (Media \<lparr>mimetype = Some ''image/png'', data = ''AQI='', filename = ''pic.png''\<rparr>)])"
proof -
  have c: "client ready_state = Some 0" by (simp add: ready_state_eq)
  from media_job_steps [where s = ready_state and h = 0 and phone = "''5551234567''"
      and message = "''hi''" and fileUrl = "''http://files.example/img/pic.png''"
      and response = png_response and ?v1.0 = png_response and ?v2.0 = png_response] c
  have "run_job pic_job [Resolves png_response, Resolves png_response, Resolves png_response] ready_state =
        (Finished None,
         [Fetch ''http://files.example/img/pic.png'',
          Send 0 (''5551234567'' @ ''@c.us'') (Text ''hi''),
          Send 0 (''5551234567'' @ ''@c.us'')
            (Media \<lparr>mimetype = map_of (headers png_response) ''content-type'',
                    data = base64 (body png_response),
                    filename = last (split CHR ''/'' ''http://files.example/img/pic.png'')\<rparr>)])"
    unfolding pic_job_def by blast
  then show ?thesis using c
    by (simp add: png_response_def b64_char_def b64_alphabet_def)
qed

text \<open>
  Claim C8 as stated fails: the fetch succeeds and the text send rejects, and the job
  ends after one send.
\<close>

theorem failed_text_send_skips_media:
  "client ready_state = Some 0 \<and>
   run_job pic_job [Resolves png_response, Rejects (Error ''send failed'')] ready_state =
     (Finished (Some (Error ''send failed'')),
      [Fetch ''http://files.example/img/pic.png'', Send 0 ''5551234567@c.us'' (Text ''hi'')]) \<and>
   length (sends (snd (run_job pic_job [Resolves png_response, Rejects (Error ''send failed'')]
                         ready_state))) = 1"
  by (simp add: ready_state_eq run_job_def pic_job_def client_sendMessage_def Let_def)

end
